theory Spec2Isabelle
  imports
    Main
    "HOL-Library.Word"
    "HOL-Library.Char_ord"
    "HOL-Library.List_Lexorder"
    "HOL-Library.Signed_Division"
    "HOL-Library.Multiset"
    "HOL-Library.Sublist"
    "HOL-Library.AList"
begin

unbundle bit_operations_syntax

section \<open>bt2disk: saving BigTable tables to SQLite and restoring them\<close>

text \<open>
  The development follows \<^verbatim>\<open>bt2disk.go\<close>. Go strings and byte slices are
  \<^typ>\<open>string\<close> (lists of 8-bit characters), \<^verbatim>\<open>int64\<close> is \<^typ>\<open>64 word\<close>,
  \<^verbatim>\<open>uint32\<close> is \<^typ>\<open>32 word\<close>. An \<^verbatim>\<open>error\<close> coming from a library is
  its message, \<^verbatim>\<open>nil\<close> is \<^term>\<open>None\<close>.
\<close>

subsection \<open>Standard library: hash/fnv, strings, time\<close>

text \<open>
  \<^verbatim>\<open>fnv.New32a()\<close>: the 32-bit FNV-1a hash. The state starts at the offset basis; every
  byte written is xor-ed into the state, which is then multiplied by the FNV prime,
  modulo \<open>2^32\<close>.
\<close>

definition New32a :: "32 word" where
  "New32a = 2166136261"

definition Write :: "32 word \<Rightarrow> string \<Rightarrow> 32 word" where
  "Write hasher bs = foldl (\<lambda>h c. (h XOR of_char c) * 16777619) hasher bs"

definition Sum32 :: "32 word \<Rightarrow> 32 word" where
  "Sum32 hasher = hasher"

text \<open>\<^verbatim>\<open>strings.TrimPrefix(s, prefix)\<close>.\<close>

definition TrimPrefix :: "string \<Rightarrow> string \<Rightarrow> string" where
  "TrimPrefix s p = (if prefix p s then drop (length p) s else s)"

text \<open>
  A \<^verbatim>\<open>time.Time\<close> is modelled by its instant: the number of nanoseconds since the Unix
  epoch, unbounded (Go's range is far wider than 64 bits of nanoseconds). The location
  is always \<^verbatim>\<open>time.Local\<close> in this program.
\<close>

type_synonym Time = int

definition time_Unix :: "int \<Rightarrow> int \<Rightarrow> Time" where
  "time_Unix sec nsec = sec * 1000000000 + nsec"

text \<open>\<^verbatim>\<open>t.UnixNano()\<close> is an \<^verbatim>\<open>int64\<close>: outside its range the value wraps.\<close>

definition UnixNano :: "Time \<Rightarrow> 64 word" where
  "UnixNano t = word_of_int t"

text \<open>
  A \<^verbatim>\<open>bigtable.Timestamp\<close> is an \<^verbatim>\<open>int64\<close> of microseconds.
  \<^verbatim>\<open>ts.Time()\<close> is \<^verbatim>\<open>time.Unix(int64(ts)/1e6, int64(ts)%1e6*1e3)\<close> and
  \<^verbatim>\<open>bigtable.Time(t)\<close> is \<^verbatim>\<open>Timestamp(t.UnixNano() / 1e3)\<close>; Go's \<^verbatim>\<open>/\<close> and
  \<^verbatim>\<open>%\<close> truncate towards zero.
\<close>

definition Timestamp_Time :: "64 word \<Rightarrow> Time" where
  "Timestamp_Time ts = time_Unix (sint ts sdiv 1000000) (sint ts smod 1000000 * 1000)"

definition bigtable_Time :: "Time \<Rightarrow> 64 word" where
  "bigtable_Time t = word_of_int (sint (UnixNano t) sdiv 1000)"

text \<open>
  Two library functions are parameters of the model. \<open>Fprintf L format\<close> is the byte
  sequence that \<^verbatim>\<open>fmt.Fprintf(w, format)\<close> writes to \<open>w\<close> when it is called with a
  format and no operands. \<open>Format L t\<close> is \<^verbatim>\<open>t.Format(time.RFC3339Nano)\<close> in the
  local time zone of the process, which depends on the zone database of the machine.
  Every run of the program within one development uses the same \<open>L\<close>.
\<close>

record Lib =
  Fprintf :: "string \<Rightarrow> string"
  Format :: "Time \<Rightarrow> string"

subsection \<open>Data\<close>

text \<open>\<^verbatim>\<open>bigtable.ReadItem\<close>: one cell as the store returns it.\<close>

record ReadItem =
  Row :: string
  Column :: string
  Timestamp :: "64 word"
  Value :: string

text \<open>
  \<^verbatim>\<open>bigtable.Row\<close> is a Go map from a column family to its items. The model lists the
  entries in the order in which \<^verbatim>\<open>range\<close> visits them; Go leaves that order
  unspecified, so two scans of one row may differ by a permutation of the entries.
\<close>

type_synonym BtRow = "(string \<times> ReadItem list) list"

text \<open>\<^verbatim>\<open>row.Key()\<close>: the key of the first item found, or the empty string.\<close>

fun Row_Key :: "BtRow \<Rightarrow> string" where
  "Row_Key [] = []"
| "Row_Key ((cf, []) # r) = Row_Key r"
| "Row_Key ((cf, item # items) # r) = Row item"

text \<open>
  One row of a snapshot table, with the columns of
  \<^verbatim>\<open>(key TEXT, column_family TEXT, column TEXT, value BLOB, timestamp INTEGER, chk INTEGER)\<close>.
\<close>

record SnapRow =
  key :: string
  column_family :: string
  column :: string
  val :: string
  timestamp :: "64 word"
  chk :: "32 word"

text \<open>
  A \<^verbatim>\<open>bigtable.Mutation\<close> holding the one operation
  \<^verbatim>\<open>m.Set(family, column, ts, value)\<close>.
\<close>

datatype Mutation = SetCell string string "64 word" string

subsection \<open>The checksum, as each pipeline computes it\<close>

text \<open>
  \<^verbatim>\<open>SaveTable\<close>, for an item under the family \<open>cf\<close>: the column without the
  family prefix, the five writes to the hasher, and the row handed to \<^verbatim>\<open>INSERT\<close>.
\<close>

definition save_hash :: "Lib \<Rightarrow> string \<Rightarrow> string \<Rightarrow> ReadItem \<Rightarrow> 32 word" where
  "save_hash L cf col item =
     (let hasher = New32a;
          hasher = Write hasher (Fprintf L (Row item));
          hasher = Write hasher (Fprintf L cf);
          hasher = Write hasher (Fprintf L col);
          hasher = Write hasher (Value item);
          hasher = Write hasher (Fprintf L (Format L (Timestamp_Time (Timestamp item))))
      in Sum32 hasher)"

definition save_row :: "Lib \<Rightarrow> string \<Rightarrow> ReadItem \<Rightarrow> SnapRow" where
  "save_row L cf item =
     (let col = TrimPrefix (Column item) (cf @ '':'')
      in \<lparr>key = Row item, column_family = cf, column = col, val = Value item,
          timestamp = UnixNano (Timestamp_Time (Timestamp item)),
          chk = save_hash L cf col item\<rparr>)"

text \<open>\<^verbatim>\<open>RestoreTable\<close>, for a scanned row: the time and the recomputed checksum.\<close>

definition restore_time :: "SnapRow \<Rightarrow> Time" where
  "restore_time r = time_Unix 0 (sint (timestamp r))"

definition restore_hash :: "Lib \<Rightarrow> SnapRow \<Rightarrow> 32 word" where
  "restore_hash L r =
     (let hasher = New32a;
          hasher = Write hasher (Fprintf L (key r));
          hasher = Write hasher (Fprintf L (column_family r));
          hasher = Write hasher (Fprintf L (column r));
          hasher = Write hasher (val r);
          hasher = Write hasher (Fprintf L (Format L (restore_time r)))
      in Sum32 hasher)"

subsection \<open>Collaborators\<close>

text \<open>
  The program talks to two stores through client libraries. Each is modelled by an
  interface over a state the program never inspects: a call returns what the program
  observes (a result or an error) and, when the call writes, the new state. Every
  theorem below that quantifies over an interface holds for every behaviour of the
  store, failures included.

  The SQLite database, through \<^verbatim>\<open>database/sql\<close>. \<open>Prepare\<close> returns the error of
  \<^verbatim>\<open>db.Prepare\<close>; \<open>Exec\<close> runs a prepared statement with its bound values (none, or
  the six columns of one row). \<open>QueryTables\<close> is
  \<^verbatim>\<open>SELECT name FROM sqlite_master WHERE type='table' AND name NOT LIKE 'sqlite_%'\<close>
  and \<open>QueryRows table\<close> is
  \<^verbatim>\<open>SELECT key, column_family, column, value, timestamp, chk FROM "table"\<close>: the error of
  \<^verbatim>\<open>db.Query\<close>, or the result rows in the order \<^verbatim>\<open>rows.Next()\<close> delivers them, each
  one the outcome of its \<^verbatim>\<open>rows.Scan\<close> (\<open>Inl\<close> the error).
\<close>

datatype sql =
  DROP_TABLE_IF_EXISTS string
| CREATE_TABLE_IF_NOT_EXISTS string
| INSERT_INTO string

record 'db SqlDB =
  Prepare :: "sql \<Rightarrow> 'db \<Rightarrow> string option"
  Exec :: "sql \<Rightarrow> SnapRow list \<Rightarrow> 'db \<Rightarrow> string option \<times> 'db"
  QueryTables :: "'db \<Rightarrow> string + (string + string) list"
  QueryRows :: "string \<Rightarrow> 'db \<Rightarrow> string + (string + SnapRow) list"

text \<open>
  BigTable, through \<^verbatim>\<open>adminClient\<close> and \<^verbatim>\<open>btClient\<close>. \<open>ReadRows table\<close> is the
  scan \<^verbatim>\<open>tbl.ReadRows(ctx, bigtable.InfiniteRange(""), f)\<close>: the rows it hands to the
  callback, in order, and the error it returns after the last of them. When the callback
  returns false the library stops the scan and returns nil. \<open>ApplyBulk table keys muts\<close>
  returns the pair \<^verbatim>\<open>(errs, err)\<close> of \<^verbatim>\<open>tbl.ApplyBulk\<close>: one entry per mutation
  (nil for a mutation that was applied), and the error of the call.
\<close>

record 'bt BigTable =
  Tables :: "'bt \<Rightarrow> string + string list"
  DropAllRows :: "string \<Rightarrow> 'bt \<Rightarrow> string option \<times> 'bt"
  ReadRows :: "string \<Rightarrow> 'bt \<Rightarrow> BtRow list \<times> string option"
  ApplyBulk :: "string \<Rightarrow> string list \<Rightarrow> Mutation list \<Rightarrow> 'bt
                 \<Rightarrow> (string option list \<times> string option) \<times> 'bt"

text \<open>
  What a run does, in order: the lines it prints with \<^verbatim>\<open>log.Printf\<close> and the calls
  that change the remote store. A bulk write is recorded with its table, its two
  arguments and the pair \<^verbatim>\<open>(errs, err)\<close> that came back.
\<close>

datatype event =
  Saving string
| Saved nat string
| Restoring string
| Restored nat string
| Call_DropAllRows string
| Call_ApplyBulk string "string list" "Mutation list" "string option list" "string option"

text \<open>One constructor for each \<^verbatim>\<open>fmt.Errorf\<close> of the program, with its operands.\<close>

datatype Error =
  ListTablesFailed string
| DeleteTableFailed string
| QueryTableListFailed
| ScanFailed string
| RestoreTableFailed string Error
| QueryContentsFailed string
| IntegrityCheckFailed "32 word" "32 word"
| WriteFailed string
| WriteErrors nat string
| SaveTableFailed string Error
| PrepareDropFailed string
| ExecDropFailed string
| PrepareCreateFailed string
| ExecCreateFailed string
| PrepareInsertFailed string
| IterateRowsFailed string
| SaveRowFailed string string

definition emit :: "event \<Rightarrow> 'e \<times> 's \<times> event list \<Rightarrow> 'e \<times> 's \<times> event list" where
  "emit ev r = (case r of (e, s, tr) \<Rightarrow> (e, s, ev # tr))"

definition emits :: "event list \<Rightarrow> 'e \<times> 's \<times> event list \<Rightarrow> 'e \<times> 's \<times> event list" where
  "emits evs r = (case r of (e, s, tr) \<Rightarrow> (e, s, evs @ tr))"

subsection \<open>RestoreTable\<close>

text \<open>\<^verbatim>\<open>filterErrors\<close> keeps the non-nil errors, in order.\<close>

fun filterErrors :: "string option list \<Rightarrow> string list" where
  "filterErrors [] = []"
| "filterErrors (None # errs) = filterErrors errs"
| "filterErrors (Some err # errs) = err # filterErrors errs"

text \<open>
  The inspection of the result of a bulk write,
  \<^verbatim>\<open>if errs, err := tbl.ApplyBulk(...); err != nil {...} else if errs = filterErrors(errs); len(errs) > 0 {...}\<close>;
  the source has this block twice, inside the loop and after it.
\<close>

definition write_error :: "string option list \<Rightarrow> string option \<Rightarrow> Error option" where
  "write_error errs err =
     (case err of
        Some msg \<Rightarrow> Some (WriteFailed msg)
      | None \<Rightarrow>
          (case filterErrors errs of
             [] \<Rightarrow> None
           | e # es \<Rightarrow> Some (WriteErrors (length (e # es)) e)))"

text \<open>
  The loop over \<^verbatim>\<open>rows.Next()\<close> with its variables \<open>c\<close>, \<open>keys\<close>, \<open>muts\<close>, then
  the final flush and the log line.
\<close>

fun restore_rows ::
  "Lib \<Rightarrow> 'bt BigTable \<Rightarrow> string \<Rightarrow> (string + SnapRow) list \<Rightarrow> nat \<Rightarrow> string list
     \<Rightarrow> Mutation list \<Rightarrow> 'bt \<Rightarrow> Error option \<times> 'bt \<times> event list" where
  "restore_rows L B table [] c keys muts bt =
     (if length muts > 0 then
        (case ApplyBulk B table keys muts bt of
           ((errs, err), bt') \<Rightarrow>
             emit (Call_ApplyBulk table keys muts errs err)
               (case write_error errs err of
                  Some e \<Rightarrow> (Some e, bt', [])
                | None \<Rightarrow> (None, bt', [Restored c table])))
      else (None, bt, [Restored c table]))"
| "restore_rows L B table (Inl err # rows) c keys muts bt = (Some (ScanFailed err), bt, [])"
| "restore_rows L B table (Inr r # rows) c keys muts bt =
     (let computed = restore_hash L r in
      if chk r \<noteq> computed then (Some (IntegrityCheckFailed (chk r) computed), bt, [])
      else
        let m = SetCell (column_family r) (column r) (bigtable_Time (restore_time r)) (val r);
            c = c + 1;
            keys = keys @ [key r];
            muts = muts @ [m]
        in if length muts = 100 then
             (case ApplyBulk B table keys muts bt of
                ((errs, err), bt') \<Rightarrow>
                  emit (Call_ApplyBulk table keys muts errs err)
                    (case write_error errs err of
                       Some e \<Rightarrow> (Some e, bt', [])
                     | None \<Rightarrow> restore_rows L B table rows c [] [] bt'))
           else restore_rows L B table rows c keys muts bt)"

definition RestoreTable ::
  "Lib \<Rightarrow> 'bt BigTable \<Rightarrow> 'db SqlDB \<Rightarrow> string \<Rightarrow> 'bt \<Rightarrow> 'db \<Rightarrow> Error option \<times> 'bt \<times> event list" where
  "RestoreTable L B D table bt db =
     emit (Restoring table)
       (case QueryRows D table db of
          Inl err \<Rightarrow> (Some (QueryContentsFailed err), bt, [])
        | Inr rows \<Rightarrow> restore_rows L B table rows 0 [] [] bt)"

subsection \<open>SaveTable\<close>

text \<open>
  The callback of \<^verbatim>\<open>ReadRows\<close>: the loop over the items of a family, the loop over the
  families of a row, and the rows handed to the callback until it returns false. The
  result is the error of the failed \<^verbatim>\<open>INSERT\<close>, the counter \<open>c\<close> and the database.
\<close>

fun save_items ::
  "Lib \<Rightarrow> 'db SqlDB \<Rightarrow> string \<Rightarrow> string \<Rightarrow> ReadItem list \<Rightarrow> nat \<Rightarrow> 'db
     \<Rightarrow> string option \<times> nat \<times> 'db" where
  "save_items L D table cf [] c db = (None, c, db)"
| "save_items L D table cf (item # items) c db =
     (case Exec D (INSERT_INTO table) [save_row L cf item] db of
        (Some err, db') \<Rightarrow> (Some err, c, db')
      | (None, db') \<Rightarrow> save_items L D table cf items (c + 1) db')"

fun save_families ::
  "Lib \<Rightarrow> 'db SqlDB \<Rightarrow> string \<Rightarrow> BtRow \<Rightarrow> nat \<Rightarrow> 'db \<Rightarrow> string option \<times> nat \<times> 'db" where
  "save_families L D table [] c db = (None, c, db)"
| "save_families L D table ((cf, items) # row) c db =
     (case save_items L D table cf items c db of
        (Some err, c', db') \<Rightarrow> (Some err, c', db')
      | (None, c', db') \<Rightarrow> save_families L D table row c' db')"

fun save_rows ::
  "Lib \<Rightarrow> 'db SqlDB \<Rightarrow> string \<Rightarrow> BtRow list \<Rightarrow> nat \<Rightarrow> 'db \<Rightarrow> Error option \<times> nat \<times> 'db" where
  "save_rows L D table [] c db = (None, c, db)"
| "save_rows L D table (row # rows) c db =
     (case save_families L D table row c db of
        (Some err, c', db') \<Rightarrow> (Some (SaveRowFailed (Row_Key row) err), c', db')
      | (None, c', db') \<Rightarrow> save_rows L D table rows c' db')"

text \<open>
  The scan: \<^verbatim>\<open>ReadRows\<close> with the callback, then the two checks \<^verbatim>\<open>err != nil\<close> and
  \<^verbatim>\<open>rowErr != nil\<close>, and the log line. \<open>db\<close> is the database after the statements
  that recreate the table.
\<close>

definition save_scan ::
  "Lib \<Rightarrow> 'bt BigTable \<Rightarrow> 'db SqlDB \<Rightarrow> string \<Rightarrow> 'bt \<Rightarrow> 'db \<Rightarrow> Error option \<times> 'db \<times> event list" where
  "save_scan L B D table bt db =
     (case ReadRows B table bt of
        (rows, scanErr) \<Rightarrow>
          (case save_rows L D table rows 0 db of
             (Some rowErr, c, db') \<Rightarrow> (Some rowErr, db', [])
           | (None, c, db') \<Rightarrow>
               (case scanErr of
                  Some err \<Rightarrow> (Some (IterateRowsFailed err), db', [])
                | None \<Rightarrow> (None, db', [Saved c table]))))"

definition SaveTable ::
  "Lib \<Rightarrow> 'bt BigTable \<Rightarrow> 'db SqlDB \<Rightarrow> string \<Rightarrow> 'bt \<Rightarrow> 'db \<Rightarrow> Error option \<times> 'db \<times> event list" where
  "SaveTable L B D table bt db =
     emit (Saving table)
       (case Prepare D (DROP_TABLE_IF_EXISTS table) db of
          Some err \<Rightarrow> (Some (PrepareDropFailed err), db, [])
        | None \<Rightarrow>
            (case Exec D (DROP_TABLE_IF_EXISTS table) [] db of
               (Some err, db1) \<Rightarrow> (Some (ExecDropFailed err), db1, [])
             | (None, db1) \<Rightarrow>
                 (case Prepare D (CREATE_TABLE_IF_NOT_EXISTS table) db1 of
                    Some err \<Rightarrow> (Some (PrepareCreateFailed err), db1, [])
                  | None \<Rightarrow>
                      (case Exec D (CREATE_TABLE_IF_NOT_EXISTS table) [] db1 of
                         (Some err, db2) \<Rightarrow> (Some (ExecCreateFailed err), db2, [])
                       | (None, db2) \<Rightarrow>
                           (case Prepare D (INSERT_INTO table) db2 of
                              Some err \<Rightarrow> (Some (PrepareInsertFailed err), db2, [])
                            | None \<Rightarrow> save_scan L B D table bt db2)))))"

subsection \<open>SaveAll and Restore\<close>

fun save_tables ::
  "Lib \<Rightarrow> 'bt BigTable \<Rightarrow> 'db SqlDB \<Rightarrow> string list \<Rightarrow> 'bt \<Rightarrow> 'db
     \<Rightarrow> Error option \<times> 'db \<times> event list" where
  "save_tables L B D [] bt db = (None, db, [])"
| "save_tables L B D (table # tables) bt db =
     (case SaveTable L B D table bt db of
        (Some err, db', tr) \<Rightarrow> (Some (SaveTableFailed table err), db', tr)
      | (None, db', tr) \<Rightarrow> emits tr (save_tables L B D tables bt db'))"

definition SaveAll ::
  "Lib \<Rightarrow> 'bt BigTable \<Rightarrow> 'db SqlDB \<Rightarrow> 'bt \<Rightarrow> 'db \<Rightarrow> Error option \<times> 'db \<times> event list" where
  "SaveAll L B D bt db =
     (case Tables B bt of
        Inl err \<Rightarrow> (Some (ListTablesFailed err), db, [])
      | Inr tables \<Rightarrow> save_tables L B D (sort tables) bt db)"

fun drop_tables :: "'bt BigTable \<Rightarrow> string list \<Rightarrow> 'bt \<Rightarrow> Error option \<times> 'bt \<times> event list" where
  "drop_tables B [] bt = (None, bt, [])"
| "drop_tables B (table # tables) bt =
     emit (Call_DropAllRows table)
       (case DropAllRows B table bt of
          (Some err, bt') \<Rightarrow> (Some (DeleteTableFailed table), bt', [])
        | (None, bt') \<Rightarrow> drop_tables B tables bt')"

fun restore_tables ::
  "Lib \<Rightarrow> 'bt BigTable \<Rightarrow> 'db SqlDB \<Rightarrow> (string + string) list \<Rightarrow> 'bt \<Rightarrow> 'db
     \<Rightarrow> Error option \<times> 'bt \<times> event list" where
  "restore_tables L B D [] bt db = (None, bt, [])"
| "restore_tables L B D (Inl err # names) bt db = (Some (ScanFailed err), bt, [])"
| "restore_tables L B D (Inr table # names) bt db =
     (case RestoreTable L B D table bt db of
        (Some err, bt', tr) \<Rightarrow> (Some (RestoreTableFailed table err), bt', tr)
      | (None, bt', tr) \<Rightarrow> emits tr (restore_tables L B D names bt' db))"

definition Restore ::
  "Lib \<Rightarrow> 'bt BigTable \<Rightarrow> 'db SqlDB \<Rightarrow> 'bt \<Rightarrow> 'db \<Rightarrow> Error option \<times> 'bt \<times> event list" where
  "Restore L B D bt db =
     (case Tables B bt of
        Inl err \<Rightarrow> (Some (ListTablesFailed err), bt, [])
      | Inr tables \<Rightarrow>
          (case drop_tables B (sort tables) bt of
             (Some e, bt', tr) \<Rightarrow> (Some e, bt', tr)
           | (None, bt', tr) \<Rightarrow>
               emits tr
                 (case QueryTables D db of
                    Inl err \<Rightarrow> (Some QueryTableListFailed, bt', [])
                  | Inr names \<Rightarrow> restore_tables L B D names bt' db)))"

subsection \<open>An in-memory SQLite and an in-memory BigTable\<close>

text \<open>
  A database that never fails for lack of resources: the user tables in the order of
  \<^verbatim>\<open>sqlite_master\<close>, each with its rows in insertion order. A new table goes to the
  end. The table list leaves out the names that match \<^verbatim>\<open>LIKE 'sqlite_%'\<close>, where
  \<^verbatim>\<open>_\<close> stands for one character and letters match without regard to case.
\<close>

type_synonym MemSql = "(string \<times> SnapRow list) list"

definition ascii_lower :: "char \<Rightarrow> char" where
  "ascii_lower c =
     (if c \<in> set ''ABCDEFGHIJKLMNOPQRSTUVWXYZ'' then char_of (of_char c + (32 :: nat)) else c)"

definition like_sqlite :: "string \<Rightarrow> bool" where
  "like_sqlite name = (7 \<le> length name \<and> map ascii_lower (take 6 name) = ''sqlite'')"

definition mem_Prepare :: "sql \<Rightarrow> MemSql \<Rightarrow> string option" where
  "mem_Prepare q db =
     (case q of
        INSERT_INTO t \<Rightarrow> (if t \<in> fst ` set db then None else Some ''no such table'')
      | _ \<Rightarrow> None)"

definition mem_Exec :: "sql \<Rightarrow> SnapRow list \<Rightarrow> MemSql \<Rightarrow> string option \<times> MemSql" where
  "mem_Exec q args db =
     (case q of
        DROP_TABLE_IF_EXISTS t \<Rightarrow> (None, filter (\<lambda>(n, rs). n \<noteq> t) db)
      | CREATE_TABLE_IF_NOT_EXISTS t \<Rightarrow> (None, if t \<in> fst ` set db then db else db @ [(t, [])])
      | INSERT_INTO t \<Rightarrow>
          (case args of
             [r] \<Rightarrow>
               (if t \<in> fst ` set db
                then (None, map (\<lambda>(n, rs). if n = t then (n, rs @ [r]) else (n, rs)) db)
                else (Some ''no such table'', db))
           | _ \<Rightarrow> (Some ''wrong number of values'', db)))"

definition mem_QueryTables :: "MemSql \<Rightarrow> string + (string + string) list" where
  "mem_QueryTables db = Inr (map Inr (filter (\<lambda>n. \<not> like_sqlite n) (map fst db)))"

definition mem_QueryRows :: "string \<Rightarrow> MemSql \<Rightarrow> string + (string + SnapRow) list" where
  "mem_QueryRows t db =
     (case map_of db t of None \<Rightarrow> Inl ''no such table'' | Some rs \<Rightarrow> Inr (map Inr rs))"

definition MemSql :: "MemSql SqlDB" where
  "MemSql = \<lparr>Prepare = mem_Prepare, Exec = mem_Exec,
             QueryTables = mem_QueryTables, QueryRows = mem_QueryRows\<rparr>"

text \<open>
  A remote store that applies every well-formed write: the tables in the order of the
  listing, each with its cells. A cell is identified by its row key, family, column
  qualifier and timestamp; writing to an existing cell replaces its value.
\<close>

type_synonym CellId = "string \<times> string \<times> string \<times> 64 word"

type_synonym MemBT = "(string \<times> (CellId \<times> string) list) list"

definition apply_entry :: "string \<times> Mutation \<Rightarrow> (CellId \<times> string) list \<Rightarrow> (CellId \<times> string) list" where
  "apply_entry e cells = (case e of (k, SetCell f q ts v) \<Rightarrow> AList.update (k, f, q, ts) v cells)"

definition mem_Tables :: "MemBT \<Rightarrow> string + string list" where
  "mem_Tables bt = Inr (map fst bt)"

definition mem_DropAllRows :: "string \<Rightarrow> MemBT \<Rightarrow> string option \<times> MemBT" where
  "mem_DropAllRows t bt =
     (if t \<in> fst ` set bt
      then (None, map (\<lambda>(n, cells). if n = t then (n, []) else (n, cells)) bt)
      else (Some ''table not found'', bt))"

definition mem_ReadRows :: "string \<Rightarrow> MemBT \<Rightarrow> BtRow list \<times> string option" where
  "mem_ReadRows t bt =
     (case map_of bt t of
        None \<Rightarrow> ([], Some ''table not found'')
      | Some cells \<Rightarrow>
          (map (\<lambda>k.
             map (\<lambda>f. (f, concat (map (\<lambda>((k', f', q, ts), v).
                          if k' = k \<and> f' = f
                          then [\<lparr>Row = k, Column = f @ '':'' @ q, Timestamp = ts, Value = v\<rparr>]
                          else []) cells)))
               (remdups (map (\<lambda>((k', f', q, ts), v). f')
                           (filter (\<lambda>((k', f', q, ts), v). k' = k) cells))))
             (sort (remdups (map (\<lambda>((k', f', q, ts), v). k') cells))), None))"

definition mem_ApplyBulk ::
  "string \<Rightarrow> string list \<Rightarrow> Mutation list \<Rightarrow> MemBT \<Rightarrow> (string option list \<times> string option) \<times> MemBT" where
  "mem_ApplyBulk t keys muts bt =
     (if length keys \<noteq> length muts then (([], Some ''mismatched rowKeys and mutation array lengths''), bt)
      else if t \<notin> fst ` set bt then (([], Some ''table not found''), bt)
      else (([], None),
            map (\<lambda>(n, cells). if n = t then (n, fold apply_entry (zip keys muts) cells) else (n, cells)) bt))"

definition MemBT :: "MemBT BigTable" where
  "MemBT = \<lparr>Tables = mem_Tables, DropAllRows = mem_DropAllRows,
            ReadRows = mem_ReadRows, ApplyBulk = mem_ApplyBulk\<rparr>"

subsection \<open>The library functions of Go\<close>

text \<open>
  \<^verbatim>\<open>fmt.Fprintf(w, format)\<close> with no operands, after \<^verbatim>\<open>doPrintf\<close> of package
  \<^verbatim>\<open>fmt\<close>. Text up to a \<^verbatim>\<open>%\<close> is copied. After a \<^verbatim>\<open>%\<close> come flags, an optional
  argument index \<^verbatim>\<open>[n]\<close>, a width, a precision and the verb. The verb \<^verbatim>\<open>%\<close> writes
  a percent sign; every other verb finds no operand and writes
  \<^verbatim>\<open>%!v(MISSING)\<close>, or \<^verbatim>\<open>%!v(BADINDEX)\<close> after an argument index; a format that
  ends inside a directive writes \<^verbatim>\<open>%!(NOVERB)\<close>. The functions work on the rest of
  the format where the Go code moves an index.
\<close>

definition is_flag :: "char \<Rightarrow> bool" where
  "is_flag c = (c \<in> set ''#0+- '')"

definition is_digit :: "char \<Rightarrow> bool" where
  "is_digit c = (c \<in> set ''0123456789'')"

text \<open>
  \<^verbatim>\<open>parsenum\<close>: whether a number was read, and the rest of the format. A number that
  grows beyond \<open>10^6\<close> is given up, and the index jumps to the end of the format.
\<close>

fun parsenum_from :: "nat \<Rightarrow> bool \<Rightarrow> string \<Rightarrow> bool \<times> string" where
  "parsenum_from num isnum [] = (isnum, [])"
| "parsenum_from num isnum (c # s) =
     (if is_digit c then
        (if 1000000 < num then (False, [])
         else parsenum_from (num * 10 + (of_char c - 48)) True s)
      else (isnum, c # s))"

definition parsenum :: "string \<Rightarrow> bool \<times> string" where
  "parsenum s = parsenum_from 0 False s"

text \<open>
  \<^verbatim>\<open>parseArgNumber\<close> on a format that starts with \<^verbatim>\<open>[\<close>: the width of the index and
  whether it is a number in brackets. \<^verbatim>\<open>argNumber\<close> with no operands: the rest of the
  format, whether an index was found, and whether \<^verbatim>\<open>goodArgNum\<close> was cleared (no index
  is in range when there is no operand).
\<close>

definition parseArgNumber :: "string \<Rightarrow> nat \<times> bool" where
  "parseArgNumber s =
     (if length s < 3 then (1, False)
      else
        (let inner = takeWhile (\<lambda>c. c \<noteq> CHR '']'') (tl s) in
         if length inner = length (tl s) then (1, False)
         else (length inner + 2, parsenum inner = (True, []))))"

definition argNumber :: "string \<Rightarrow> string \<times> bool \<times> bool" where
  "argNumber s =
     (if s = [] \<or> hd s \<noteq> CHR ''['' then (s, False, False)
      else (case parseArgNumber s of (wid, ok) \<Rightarrow> (drop wid s, ok, True)))"

text \<open>
  The verb is one UTF-8 encoded rune. \<open>decodeRune\<close> gives the bytes that
  \<^verbatim>\<open>writeRune\<close> emits for it and the number of bytes it took from the format: a valid
  encoding is written back as it is, an invalid byte is taken alone and written as
  U+FFFD.
\<close>

definition RuneError :: string where
  "RuneError = map char_of [0xEF, 0xBF, 0xBD :: nat]"

definition byte_in :: "char \<Rightarrow> nat \<Rightarrow> nat \<Rightarrow> bool" where
  "byte_in c lo hi = (lo \<le> of_char c \<and> of_char c \<le> hi)"

definition decodeRune :: "string \<Rightarrow> string \<times> nat" where
  "decodeRune s =
     (let b0 = (of_char (hd s) :: nat) in
      if b0 < 0x80 then ([hd s], 1)
      else
        (case (if 0xC2 \<le> b0 \<and> b0 \<le> 0xDF then (2, 0x80, 0xBF)
               else if b0 = 0xE0 then (3, 0xA0, 0xBF)
               else if b0 = 0xED then (3, 0x80, 0x9F)
               else if 0xE1 \<le> b0 \<and> b0 \<le> 0xEF then (3, 0x80, 0xBF)
               else if b0 = 0xF0 then (4, 0x90, 0xBF)
               else if 0xF1 \<le> b0 \<and> b0 \<le> 0xF3 then (4, 0x80, 0xBF)
               else if b0 = 0xF4 then (4, 0x80, 0x8F)
               else (0 :: nat, 0 :: nat, 0 :: nat)) of
           (n, lo, hi) \<Rightarrow>
             if n = 0 \<or> length s < n then (RuneError, 1)
             else if \<not> byte_in (s ! 1) lo hi then (RuneError, 1)
             else if \<not> list_all (\<lambda>c. byte_in c 0x80 0xBF) (take (n - 2) (drop 2 s))
               then (RuneError, 1)
             else (take n s, n)))"

text \<open>
  The three parts of a directive after the flags and the first argument index. The
  state is the output so far, the rest of the format, \<^verbatim>\<open>afterIndex\<close> and whether
  \<^verbatim>\<open>goodArgNum\<close> has been cleared.
\<close>

definition width_part :: "string \<times> bool \<times> bool \<Rightarrow> string \<times> string \<times> bool \<times> bool" where
  "width_part st =
     (case st of (s, afterIndex, bad) \<Rightarrow>
        if s \<noteq> [] \<and> hd s = CHR ''*'' then (''%!(BADWIDTH)'', tl s, False, bad)
        else (case parsenum s of (widPresent, s') \<Rightarrow>
                ([], s', afterIndex, bad \<or> (afterIndex \<and> widPresent))))"

definition prec_part :: "string \<times> string \<times> bool \<times> bool \<Rightarrow> string \<times> string \<times> bool \<times> bool" where
  "prec_part st =
     (case st of (out, s, afterIndex, bad) \<Rightarrow>
        if s \<noteq> [] \<and> hd s = CHR ''.'' then
          (case argNumber (tl s) of (s', found, bad') \<Rightarrow>
             if s' \<noteq> [] \<and> hd s' = CHR ''*''
             then (out @ ''%!(BADPREC)'', tl s', False, bad \<or> afterIndex \<or> bad')
             else (out, snd (parsenum s'), found, bad \<or> afterIndex \<or> bad'))
        else (out, s, afterIndex, bad))"

definition verb_part :: "string \<times> string \<times> bool \<times> bool \<Rightarrow> string \<times> string" where
  "verb_part st =
     (case st of (out, s, afterIndex, bad) \<Rightarrow>
        (case (if afterIndex then (s, bad)
               else (case argNumber s of (s', found, bad') \<Rightarrow> (s', bad \<or> bad'))) of
           (s, bad) \<Rightarrow>
             if s = [] then (out @ ''%!(NOVERB)'', [])
             else (case decodeRune s of (verb, n) \<Rightarrow>
                     (out @ (if verb = ''%'' then ''%''
                             else if bad then ''%!'' @ verb @ ''(BADINDEX)''
                             else ''%!'' @ verb @ ''(MISSING)''),
                      drop n s))))"

definition directive :: "string \<Rightarrow> string \<times> string" where
  "directive s = verb_part (prec_part (width_part (argNumber (dropWhile is_flag s))))"

lemma parsenum_from_length: "length (snd (parsenum_from n b s)) \<le> length s"
  by (induction n b s rule: parsenum_from.induct) auto

lemma parsenum_length: "length (snd (parsenum s)) \<le> length s"
  by (simp add: parsenum_def parsenum_from_length)

lemma argNumber_length: "length (fst (argNumber s)) \<le> length s"
  by (simp add: argNumber_def split: prod.splits)

lemma width_part_length: "length (fst (snd (width_part (s, a, b)))) \<le> length s"
  using parsenum_length [of s] by (auto simp: width_part_def split: prod.splits)

lemma prec_part_length: "length (fst (snd (prec_part (out, s, a, b)))) \<le> length s"
proof (cases "s \<noteq> [] \<and> hd s = CHR ''.''")
  case True
  obtain s' found bad' where an: "argNumber (tl s) = (s', found, bad')"
    by (cases "argNumber (tl s)") auto
  have l1: "length s' \<le> length (tl s)"
    using argNumber_length [of "tl s"] an by simp
  have l2: "length (snd (parsenum s')) \<le> length s'"
    by (rule parsenum_length)
  show ?thesis using True an l1 l2 by (auto simp: prec_part_def)
next
  case False
  then show ?thesis by (auto simp: prec_part_def)
qed

lemma verb_part_length: "length (snd (verb_part (out, s, a, b))) \<le> length s"
  using argNumber_length [of s]
  by (auto simp: verb_part_def split: prod.splits if_splits)

lemma directive_length: "length (snd (directive s)) \<le> length s"
proof -
  obtain s1 a1 b1 where an: "argNumber (dropWhile is_flag s) = (s1, a1, b1)"
    by (cases "argNumber (dropWhile is_flag s)") auto
  obtain o2 s2 a2 b2 where wp: "width_part (s1, a1, b1) = (o2, s2, a2, b2)"
    by (cases "width_part (s1, a1, b1)") auto
  obtain o3 s3 a3 b3 where pp: "prec_part (o2, s2, a2, b2) = (o3, s3, a3, b3)"
    by (cases "prec_part (o2, s2, a2, b2)") auto
  have "length s1 \<le> length (dropWhile is_flag s)"
    using argNumber_length [of "dropWhile is_flag s"] an by simp
  moreover have "length (dropWhile is_flag s) \<le> length s"
    by (rule length_dropWhile_le)
  moreover have "length s2 \<le> length s1"
    using width_part_length [of s1 a1 b1] wp by simp
  moreover have "length s3 \<le> length s2"
    using prec_part_length [of o2 s2 a2 b2] pp by simp
  moreover have "length (snd (verb_part (o3, s3, a3, b3))) \<le> length s3"
    by (rule verb_part_length)
  ultimately show ?thesis by (simp add: directive_def an wp pp)
qed

function doPrintf :: "string \<Rightarrow> string" where
  "doPrintf format =
     (let lit = takeWhile (\<lambda>c. c \<noteq> CHR ''%'') format;
          rest = dropWhile (\<lambda>c. c \<noteq> CHR ''%'') format
      in if rest = [] then lit
         else lit @ fst (directive (tl rest)) @ doPrintf (snd (directive (tl rest))))"
  by pat_completeness auto
termination
proof (relation "measure length")
  show "wf (measure length)" by simp
next
  fix format :: string and lit rest
  assume r: "rest = dropWhile (\<lambda>c. c \<noteq> CHR ''%'') format" and ne: "rest \<noteq> []"
  have "length (snd (directive (tl rest))) \<le> length (tl rest)" by (rule directive_length)
  moreover have "length (tl rest) < length rest" using ne by (cases rest) auto
  moreover have "length rest \<le> length format" unfolding r by (rule length_dropWhile_le)
  ultimately show "(snd (directive (tl rest)), format) \<in> measure length" by simp
qed

declare doPrintf.simps [simp del]

text \<open>
  \<^verbatim>\<open>t.Format(time.RFC3339Nano)\<close> for a process whose local zone is UTC: the layout
  \<^verbatim>\<open>2006-01-02T15:04:05.999999999Z07:00\<close>. The year has at least four digits, the
  fraction of the second is printed without its trailing zeros and left out when it is
  zero, and the zone is \<^verbatim>\<open>Z\<close>. \<open>civil\<close> turns a day number into the year, month and day of
  the proleptic Gregorian calendar, through the 400-year era of the day, the day and
  the year within the era, and the day within the year counted from the first of March.
\<close>

definition digit :: "nat \<Rightarrow> char" where
  "digit n = ''0123456789'' ! (n mod 10)"

fun dec :: "nat \<Rightarrow> string" where
  "dec n = (if n < 10 then [digit n] else dec (n div 10) @ [digit n])"

declare dec.simps [simp del]

definition zero_pad :: "nat \<Rightarrow> string \<Rightarrow> string" where
  "zero_pad width ds = replicate (width - length ds) CHR ''0'' @ ds"

definition appendInt :: "int \<Rightarrow> nat \<Rightarrow> string" where
  "appendInt x width = (if x < 0 then ''-'' else []) @ zero_pad width (dec (nat \<bar>x\<bar>))"

definition civil_month :: "int \<Rightarrow> int \<Rightarrow> int \<Rightarrow> int \<Rightarrow> int \<times> int \<times> int" where
  "civil_month era yoe doy mp =
     (yoe + era * 400 + (if mp < 10 then 0 else 1),
      (if mp < 10 then mp + 3 else mp - 9),
      doy - (153 * mp + 2) div 5 + 1)"

definition civil_day :: "int \<Rightarrow> int \<Rightarrow> int \<Rightarrow> int \<times> int \<times> int" where
  "civil_day era yoe doy = civil_month era yoe doy ((5 * doy + 2) div 153)"

definition civil_year :: "int \<Rightarrow> int \<Rightarrow> int \<Rightarrow> int \<times> int \<times> int" where
  "civil_year era doe yoe = civil_day era yoe (doe - (365 * yoe + yoe div 4 - yoe div 100))"

definition civil_era :: "int \<Rightarrow> int \<Rightarrow> int \<times> int \<times> int" where
  "civil_era era doe =
     civil_year era doe ((doe - doe div 1460 + doe div 36524 - doe div 146096) div 365)"

definition civil :: "int \<Rightarrow> int \<times> int \<times> int" where
  "civil days = civil_era ((days + 719468) div 146097) ((days + 719468) mod 146097)"

definition formatNano :: "int \<Rightarrow> string" where
  "formatNano ns =
     (if ns = 0 then []
      else ''.'' @ rev (dropWhile (\<lambda>c. c = CHR ''0'') (rev (appendInt ns 9))))"

definition format_date :: "int \<times> int \<times> int \<Rightarrow> string" where
  "format_date ymd =
     (case ymd of (y, m, d) \<Rightarrow> appendInt y 4 @ ''-'' @ appendInt m 2 @ ''-'' @ appendInt d 2)"

definition format_clock :: "int \<Rightarrow> string" where
  "format_clock sod =
     appendInt (sod div 3600) 2 @ '':'' @ appendInt (sod mod 3600 div 60) 2 @ '':'' @
     appendInt (sod mod 60) 2"

definition RFC3339Nano_UTC :: "Time \<Rightarrow> string" where
  "RFC3339Nano_UTC t =
     format_date (civil (t div 1000000000 div 86400)) @ ''T'' @
     format_clock (t div 1000000000 mod 86400) @ formatNano (t mod 1000000000) @ ''Z''"

definition GoUTC :: Lib where
  "GoUTC = \<lparr>Fprintf = doPrintf, Format = RFC3339Nano_UTC\<rparr>"

subsection \<open>Notions used in the statements\<close>

text \<open>
  The items of a scan with their families, in the order in which the callback of
  \<^verbatim>\<open>SaveTable\<close> visits them, and the snapshot rows it makes of them.
\<close>

definition scanned_items :: "BtRow list \<Rightarrow> (string \<times> ReadItem) list" where
  "scanned_items rows =
     concat (map (\<lambda>row. concat (map (\<lambda>(cf, items). map (Pair cf) items) row)) rows)"

definition saved_rows :: "Lib \<Rightarrow> BtRow list \<Rightarrow> SnapRow list" where
  "saved_rows L rows = map (\<lambda>(cf, item). save_row L cf item) (scanned_items rows)"

text \<open>The in-memory database without the table \<open>t\<close>.\<close>

definition without :: "string \<Rightarrow> MemSql \<Rightarrow> MemSql" where
  "without t db = filter (\<lambda>(n, rs). n \<noteq> t) db"

text \<open>
  A scanned row passes the integrity check when its stored checksum is the recomputed
  one; \<open>entry r\<close> is the key and the mutation that \<^verbatim>\<open>RestoreTable\<close> appends for it.
  \<open>sealed L r\<close> is the row \<open>r\<close> with the checksum that \<^verbatim>\<open>RestoreTable\<close> expects.
\<close>

definition verified :: "Lib \<Rightarrow> SnapRow \<Rightarrow> bool" where
  "verified L r = (chk r = restore_hash L r)"

definition entry :: "SnapRow \<Rightarrow> string \<times> Mutation" where
  "entry r =
     (key r, SetCell (column_family r) (column r) (bigtable_Time (restore_time r)) (val r))"

definition sealed :: "Lib \<Rightarrow> SnapRow \<Rightarrow> SnapRow" where
  "sealed L r = r\<lparr>chk := restore_hash L r\<rparr>"

text \<open>
  The batches the spec describes: a list cut into runs of 100, the last one shorter
  when the length is not a multiple of 100. \<open>full_batches\<close> are the runs of exactly
  100, \<open>remainder\<close> is what is left after them.
\<close>

function full_batches :: "'a list \<Rightarrow> 'a list list" where
  "full_batches xs = (if length xs < 100 then [] else take 100 xs # full_batches (drop 100 xs))"
  by pat_completeness auto
termination
  by (relation "measure length") auto

function remainder :: "'a list \<Rightarrow> 'a list" where
  "remainder xs = (if length xs < 100 then xs else remainder (drop 100 xs))"
  by pat_completeness auto
termination
  by (relation "measure length") auto

declare full_batches.simps [simp del] remainder.simps [simp del]

definition batches100 :: "'a list \<Rightarrow> 'a list list" where
  "batches100 xs = full_batches xs @ (if remainder xs = [] then [] else [remainder xs])"

text \<open>
  A store accepts the bulk writes of a table from the states in \<open>S\<close> when every bulk
  write with as many keys as mutations comes back without an error of the call or of an
  item and leaves the store in \<open>S\<close>.
\<close>

definition accepts :: "'bt BigTable \<Rightarrow> string \<Rightarrow> 'bt set \<Rightarrow> bool" where
  "accepts B table S =
     (\<forall>bt\<in>S. \<forall>keys muts. length keys = length muts \<longrightarrow>
        (case ApplyBulk B table keys muts bt of
           ((errs, err), bt') \<Rightarrow> write_error errs err = None \<and> bt' \<in> S))"

text \<open>
  The store after the bulk writes of a list of batches, one call for each, and the
  events of these calls.
\<close>

fun run_batches :: "'bt BigTable \<Rightarrow> string \<Rightarrow> (string \<times> Mutation) list list \<Rightarrow> 'bt \<Rightarrow> 'bt" where
  "run_batches B table [] bt = bt"
| "run_batches B table (b # bs) bt =
     run_batches B table bs (snd (ApplyBulk B table (map fst b) (map snd b) bt))"

fun batch_events :: "'bt BigTable \<Rightarrow> string \<Rightarrow> (string \<times> Mutation) list list \<Rightarrow> 'bt \<Rightarrow> event list" where
  "batch_events B table [] bt = []"
| "batch_events B table (b # bs) bt =
     (case ApplyBulk B table (map fst b) (map snd b) bt of
        ((errs, err), bt') \<Rightarrow>
          Call_ApplyBulk table (map fst b) (map snd b) errs err # batch_events B table bs bt')"

text \<open>Projections of a trace: the bulk writes, and the tables saved, restored, cleared.\<close>

fun bulk_calls :: "event list \<Rightarrow> (string \<times> string list \<times> Mutation list) list" where
  "bulk_calls [] = []"
| "bulk_calls (Call_ApplyBulk table keys muts errs err # tr) = (table, keys, muts) # bulk_calls tr"
| "bulk_calls (ev # tr) = bulk_calls tr"

fun saving_order :: "event list \<Rightarrow> string list" where
  "saving_order [] = []"
| "saving_order (Saving table # tr) = table # saving_order tr"
| "saving_order (ev # tr) = saving_order tr"

fun restoring_order :: "event list \<Rightarrow> string list" where
  "restoring_order [] = []"
| "restoring_order (Restoring table # tr) = table # restoring_order tr"
| "restoring_order (ev # tr) = restoring_order tr"

fun cleared :: "event list \<Rightarrow> string list" where
  "cleared [] = []"
| "cleared (Call_DropAllRows table # tr) = table # cleared tr"
| "cleared (ev # tr) = cleared tr"

text \<open>
  A trace read against the remote store. \<open>replay B tr bt\<close> is the store after the calls
  of the trace have been made on \<open>bt\<close>, in order; \<open>answered B tr bt\<close> holds when every
  bulk write of the trace carries the pair \<^verbatim>\<open>(errs, err)\<close> that the store returns for it at
  that point.
\<close>

fun replay :: "'bt BigTable \<Rightarrow> event list \<Rightarrow> 'bt \<Rightarrow> 'bt" where
  "replay B [] bt = bt"
| "replay B (Call_DropAllRows table # tr) bt = replay B tr (snd (DropAllRows B table bt))"
| "replay B (Call_ApplyBulk table keys muts errs err # tr) bt =
     replay B tr (snd (ApplyBulk B table keys muts bt))"
| "replay B (ev # tr) bt = replay B tr bt"

fun answered :: "'bt BigTable \<Rightarrow> event list \<Rightarrow> 'bt \<Rightarrow> bool" where
  "answered B [] bt = True"
| "answered B (Call_DropAllRows table # tr) bt = answered B tr (snd (DropAllRows B table bt))"
| "answered B (Call_ApplyBulk table keys muts errs err # tr) bt =
     (fst (ApplyBulk B table keys muts bt) = (errs, err) \<and>
      answered B tr (snd (ApplyBulk B table keys muts bt)))"
| "answered B (ev # tr) bt = answered B tr bt"

text \<open>The events of the loop of \<^verbatim>\<open>RestoreTable\<close>: bulk writes and the final log line.\<close>

definition loop_event :: "event \<Rightarrow> bool" where
  "loop_event ev =
     (case ev of Call_ApplyBulk t ks ms errs err \<Rightarrow> True | Restored c t \<Rightarrow> True | _ \<Rightarrow> False)"

text \<open>The names of a table listing scanned before the first failing \<^verbatim>\<open>rows.Scan\<close>.\<close>

fun scanned_names :: "(string + string) list \<Rightarrow> string list" where
  "scanned_names [] = []"
| "scanned_names (Inl err # names) = []"
| "scanned_names (Inr table # names) = table # scanned_names names"

text \<open>A snapshot row for the examples, before its checksum is set.\<close>

definition example_row :: SnapRow where
  "example_row = \<lparr>key = ''r1'', column_family = ''cf1'', column = ''mycolumn'', val = ''v'',
                   timestamp = 1700000000123000000, chk = 0\<rparr>"

text \<open>
  A remote store that rejects the mutation at position \<open>i\<close> of every bulk write and
  applies the others: the call succeeds and the entry \<open>i\<close> of \<^verbatim>\<open>errs\<close> is an error.
\<close>

definition rejecting :: "nat \<Rightarrow> MemBT BigTable" where
  "rejecting i =
     MemBT\<lparr>ApplyBulk := \<lambda>t keys muts bt.
       ((map (\<lambda>j. if j = i then Some ''rejected'' else None) [0..<length muts], None),
        snd (mem_ApplyBulk t (take i keys @ drop (Suc i) keys)
               (take i muts @ drop (Suc i) muts) bt))\<rparr>"




section \<open>Evaluation rules\<close>

lemma dec_small: "n < 10 \<Longrightarrow> dec n = [digit n]"
  by (simp add: dec.simps)

lemma dec_big: "\<not> n < 10 \<Longrightarrow> dec n = dec (n div 10) @ [digit n]"
  by (subst dec.simps) simp

lemmas utc_eval = RFC3339Nano_UTC_def format_date_def format_clock_def civil_def civil_era_def
  civil_year_def civil_day_def civil_month_def formatNano_def appendInt_def zero_pad_def
  dec_small dec_big digit_def

lemma doPrintf_Nil: "doPrintf [] = []"
  by (subst doPrintf.simps) simp

lemma doPrintf_unfold:
  "doPrintf format =
     (if dropWhile (\<lambda>c. c \<noteq> CHR ''%'') format = [] then takeWhile (\<lambda>c. c \<noteq> CHR ''%'') format
      else takeWhile (\<lambda>c. c \<noteq> CHR ''%'') format @
           fst (directive (tl (dropWhile (\<lambda>c. c \<noteq> CHR ''%'') format))) @
           doPrintf (snd (directive (tl (dropWhile (\<lambda>c. c \<noteq> CHR ''%'') format)))))"
  unfolding doPrintf.simps [of format] Let_def ..

lemma doPrintf_literal:
  assumes "c \<noteq> CHR ''%''"
  shows "doPrintf (c # s) = c # doPrintf s"
proof (cases "dropWhile (\<lambda>c. c \<noteq> CHR ''%'') s = []")
  case True
  with assms show ?thesis
    by (simp add: doPrintf_unfold [of "c # s"] doPrintf_unfold [of s] del: dropWhile_eq_Nil_conv)
next
  case False
  with assms show ?thesis
    by (simp add: doPrintf_unfold [of "c # s"] doPrintf_unfold [of s] del: dropWhile_eq_Nil_conv)
qed

lemma doPrintf_percent:
  "doPrintf (CHR ''%'' # s) = fst (directive s) @ doPrintf (snd (directive s))"
  by (simp add: doPrintf_unfold [of "CHR ''%'' # s"])

lemma doPrintf_plain: "CHR ''%'' \<notin> set s \<Longrightarrow> doPrintf s = s"
  by (induction s) (auto simp: doPrintf_Nil doPrintf_literal)

lemmas fmt_eval = doPrintf_Nil doPrintf_literal doPrintf_percent directive_def verb_part_def
  prec_part_def width_part_def argNumber_def parseArgNumber_def parsenum_def decodeRune_def
  is_flag_def is_digit_def byte_in_def RuneError_def

lemmas time_eval = Timestamp_Time_def time_Unix_def UnixNano_def bigtable_Time_def restore_time_def
  signed_divide_int_def signed_modulo_int_def

lemmas hash_eval = save_hash_def restore_hash_def New32a_def Write_def Sum32_def

section \<open>SaveTable on the in-memory database\<close>

lemma map_other_tables:
  "t \<notin> fst ` set pre \<Longrightarrow> map (\<lambda>(n, x). if n = t then (n, f x) else (n, x)) pre = pre"
  by (induction pre) auto

lemma mem_insert:
  "t \<notin> fst ` set pre \<Longrightarrow>
   Exec MemSql (INSERT_INTO t) [r] (pre @ [(t, rs)]) = (None, pre @ [(t, rs @ [r])])"
  using map_other_tables [of t pre "\<lambda>rs. rs @ [r]"]
  by (simp add: MemSql_def mem_Exec_def)

lemma mem_save_items:
  "t \<notin> fst ` set pre \<Longrightarrow>
   save_items L MemSql t cf items c (pre @ [(t, rs)]) =
     (None, c + length items, pre @ [(t, rs @ map (save_row L cf) items)])"
  by (induction items arbitrary: c rs) (simp_all add: mem_insert)

lemma mem_save_families:
  "t \<notin> fst ` set pre \<Longrightarrow>
   save_families L MemSql t row c (pre @ [(t, rs)]) =
     (None, c + length (scanned_items [row]),
      pre @ [(t, rs @ map (\<lambda>(cf, item). save_row L cf item) (scanned_items [row]))])"
proof (induction row arbitrary: c rs)
  case Nil
  then show ?case by (simp add: scanned_items_def)
next
  case (Cons fam row)
  obtain cf items where fam: "fam = (cf, items)" by (cases fam)
  show ?case
    using Cons.prems
    by (simp add: fam mem_save_items Cons.IH [OF Cons.prems] scanned_items_def comp_def)
qed

lemma mem_save_rows:
  "t \<notin> fst ` set pre \<Longrightarrow>
   save_rows L MemSql t rows c (pre @ [(t, rs)]) =
     (None, c + length (scanned_items rows), pre @ [(t, rs @ saved_rows L rows)])"
proof (induction rows arbitrary: c rs)
  case Nil
  then show ?case by (simp add: scanned_items_def saved_rows_def)
next
  case (Cons row rows)
  have split: "scanned_items (row # rows) = scanned_items [row] @ scanned_items rows"
    by (simp add: scanned_items_def)
  show ?case
    using Cons.prems
    by (simp add: mem_save_families Cons.IH [OF Cons.prems] split saved_rows_def)
qed

lemma without_fresh: "t \<notin> fst ` set (without t db)"
  by (auto simp: without_def)

lemma mem_SaveTable:
  assumes "ReadRows B t bt = (rows, None)"
  shows "SaveTable L B MemSql t bt db =
           (None, without t db @ [(t, saved_rows L rows)],
            [Saving t, Saved (length (saved_rows L rows)) t])"
proof -
  have fresh: "t \<notin> fst ` set (without t db)" by (rule without_fresh)
  have drop: "Exec MemSql (DROP_TABLE_IF_EXISTS t) [] db = (None, without t db)"
    by (simp add: MemSql_def mem_Exec_def without_def)
  have create: "Exec MemSql (CREATE_TABLE_IF_NOT_EXISTS t) [] (without t db) = (None, without t db @ [(t, [])])"
    using fresh by (simp add: MemSql_def mem_Exec_def)
  have prep: "Prepare MemSql (DROP_TABLE_IF_EXISTS t) db = None"
    "Prepare MemSql (CREATE_TABLE_IF_NOT_EXISTS t) (without t db) = None"
    "Prepare MemSql (INSERT_INTO t) (without t db @ [(t, [])]) = None"
    by (simp_all add: MemSql_def mem_Prepare_def)
  have scan: "save_scan L B MemSql t bt (without t db @ [(t, [])]) =
                (None, without t db @ [(t, saved_rows L rows)], [Saved (length (saved_rows L rows)) t])"
    using assms mem_save_rows [OF fresh, of L rows 0 "[]"]
    by (simp add: save_scan_def saved_rows_def)
  show ?thesis
    by (simp add: SaveTable_def prep drop create scan emit_def)
qed

section \<open>Batches and the loop of RestoreTable\<close>

lemma full_batches_short: "length xs < 100 \<Longrightarrow> full_batches xs = []"
  by (simp add: full_batches.simps)

lemma remainder_short: "length xs < 100 \<Longrightarrow> remainder xs = xs"
  by (simp add: remainder.simps)

lemma full_batches_100: "length xs = 100 \<Longrightarrow> full_batches (xs @ ys) = xs # full_batches ys"
  by (subst full_batches.simps) simp

lemma remainder_100: "length xs = 100 \<Longrightarrow> remainder (xs @ ys) = remainder ys"
  by (subst remainder.simps) simp

lemma remainder_length: "length (remainder xs) < 100"
  by (induction xs rule: remainder.induct) (subst remainder.simps, simp)

lemma full_batches_concat: "concat (full_batches xs) @ remainder xs = xs"
proof (induction xs rule: full_batches.induct)
  case (1 xs)
  show ?case
  proof (cases "length xs < 100")
    case True
    then show ?thesis by (simp add: full_batches_short remainder_short)
  next
    case False
    have "concat (full_batches xs) @ remainder xs =
            take 100 xs @ concat (full_batches (drop 100 xs)) @ remainder (drop 100 xs)"
      using False by (subst full_batches.simps, subst remainder.simps) simp
    also have "\<dots> = take 100 xs @ drop 100 xs" using 1 False by simp
    finally show ?thesis by simp
  qed
qed

lemma full_batches_length: "length (full_batches xs) = length xs div 100"
proof (induction xs rule: full_batches.induct)
  case (1 xs)
  show ?case
  proof (cases "length xs < 100")
    case True
    then show ?thesis by (simp add: full_batches_short)
  next
    case False
    have "length (full_batches xs) = Suc (length (full_batches (drop 100 xs)))"
      using False by (subst full_batches.simps) simp
    also have "\<dots> = Suc ((length xs - 100) div 100)" using 1 False by simp
    also have "\<dots> = length xs div 100" using False by (simp add: le_div_geq)
    finally show ?thesis .
  qed
qed

lemma remainder_mod: "length (remainder xs) = length xs mod 100"
proof (induction xs rule: remainder.induct)
  case (1 xs)
  show ?case
  proof (cases "length xs < 100")
    case True
    then show ?thesis by (simp add: remainder_short)
  next
    case False
    have "length (remainder xs) = length (remainder (drop 100 xs))"
      using False by (subst remainder.simps) simp
    also have "\<dots> = (length xs - 100) mod 100" using 1 False by simp
    also have "\<dots> = length xs mod 100" using False by (simp add: le_mod_geq)
    finally show ?thesis .
  qed
qed

lemma batches100_length: "length (batches100 xs) = (length xs + 99) div 100"
proof -
  have r: "(remainder xs = []) = (length xs mod 100 = 0)"
    using remainder_mod [of xs] by (metis length_0_conv)
  have "length (batches100 xs) = length xs div 100 + (if length xs mod 100 = 0 then 0 else 1)"
    by (simp add: batches100_def full_batches_length r)
  also have "\<dots> = (length xs + 99) div 100"
  proof -
    let ?m = "length xs mod 100"
    have s: "(length xs + 99) div 100 = length xs div 100 + (?m + 99) div 100"
      by (simp add: div_add1_eq [of "length xs" 99 100])
    have m: "?m < 100" by simp
    have "(?m + 99) div 100 = (if ?m = 0 then 0 else 1)"
    proof (cases "?m = 0")
      case True
      then show ?thesis by simp
    next
      case False
      have "(?m + 99) div 100 = 1"
        by (rule div_nat_eqI) (use False m in simp_all)
      with False show ?thesis by simp
    qed
    with s show ?thesis by simp
  qed
  finally show ?thesis .
qed


lemma restore_hash_sealed [simp]: "restore_hash L (sealed L r) = restore_hash L r"
  by (simp add: sealed_def restore_hash_def restore_time_def)

lemma verified_sealed [simp]: "verified L (sealed L r)"
  by (simp add: verified_def) (simp add: sealed_def)

lemma restore_rows_verified:
  "verified L r \<Longrightarrow>
   restore_rows L B t (Inr r # rows) c keys muts bt =
     (if length muts = 99 then
        (case ApplyBulk B t (keys @ [fst (entry r)]) (muts @ [snd (entry r)]) bt of
           ((errs, err), bt') \<Rightarrow>
             emit (Call_ApplyBulk t (keys @ [fst (entry r)]) (muts @ [snd (entry r)]) errs err)
               (case write_error errs err of
                  Some e \<Rightarrow> (Some e, bt', [])
                | None \<Rightarrow> restore_rows L B t rows (Suc c) [] [] bt'))
      else restore_rows L B t rows (Suc c) (keys @ [fst (entry r)]) (muts @ [snd (entry r)]) bt)"
  by (simp add: verified_def entry_def Let_def)

lemma restore_rows_split:
  assumes acc: "accepts B t S"
  shows "bt \<in> S \<Longrightarrow> \<forall>r\<in>set pre. verified L r \<Longrightarrow> length pend < 100 \<Longrightarrow>
         restore_rows L B t (map Inr pre @ rest) c (map fst pend) (map snd pend) bt =
           emits (batch_events B t (full_batches (pend @ map entry pre)) bt)
             (restore_rows L B t rest (c + length pre)
                (map fst (remainder (pend @ map entry pre)))
                (map snd (remainder (pend @ map entry pre)))
                (run_batches B t (full_batches (pend @ map entry pre)) bt))
         \<and> run_batches B t (full_batches (pend @ map entry pre)) bt \<in> S"
proof (induction pre arbitrary: bt c pend)
  case Nil
  then show ?case
    by (cases "restore_rows L B t rest c (map fst pend) (map snd pend) bt")
       (simp add: full_batches_short remainder_short emits_def)
next
  case (Cons r pre)
  have v: "verified L r" and vs: "\<forall>r\<in>set pre. verified L r" using Cons.prems(2) by auto
  show ?case
  proof (cases "length pend = 99")
    case True
    let ?b = "pend @ [entry r]"
    have len: "length ?b = 100" using True by simp
    obtain errs err bt1 where ab: "ApplyBulk B t (map fst ?b) (map snd ?b) bt = ((errs, err), bt1)"
      by (metis prod.exhaust)
    have ok: "write_error errs err = None" and bt1: "bt1 \<in> S"
      using acc Cons.prems(1) ab unfolding accepts_def
      by (auto dest!: bspec [where x = bt] spec [where x = "map fst ?b"] spec [where x = "map snd ?b"])
    have ih: "restore_rows L B t (map Inr pre @ rest) (Suc c) (map fst []) (map snd []) bt1 =
           emits (batch_events B t (full_batches ([] @ map entry pre)) bt1)
             (restore_rows L B t rest (Suc c + length pre)
                (map fst (remainder ([] @ map entry pre)))
                (map snd (remainder ([] @ map entry pre)))
                (run_batches B t (full_batches ([] @ map entry pre)) bt1))
         \<and> run_batches B t (full_batches ([] @ map entry pre)) bt1 \<in> S"
      using Cons.IH [where bt = bt1 and pend = "[]" and c = "Suc c", OF bt1 vs] by simp
    have all: "pend @ entry r # map entry pre = ?b @ map entry pre" by simp
    have fb: "full_batches (pend @ entry r # map entry pre) = ?b # full_batches (map entry pre)"
      unfolding all by (rule full_batches_100 [OF len])
    have rm: "remainder (pend @ entry r # map entry pre) = remainder (map entry pre)"
      unfolding all by (rule remainder_100 [OF len])
    show ?thesis
      using ih True v ab ok
      by (cases "restore_rows L B t rest (Suc c + length pre)
                (map fst (remainder (map entry pre)))
                (map snd (remainder (map entry pre)))
                (run_batches B t (full_batches (map entry pre)) bt1)")
         (simp add: restore_rows_verified fb rm emit_def emits_def del: restore_rows.simps)
  next
    case False
    let ?b = "pend @ [entry r]"
    have len: "length ?b < 100" using False Cons.prems(3) by simp
    have ih: "restore_rows L B t (map Inr pre @ rest) (Suc c) (map fst ?b) (map snd ?b) bt =
           emits (batch_events B t (full_batches (?b @ map entry pre)) bt)
             (restore_rows L B t rest (Suc c + length pre)
                (map fst (remainder (?b @ map entry pre)))
                (map snd (remainder (?b @ map entry pre)))
                (run_batches B t (full_batches (?b @ map entry pre)) bt))
         \<and> run_batches B t (full_batches (?b @ map entry pre)) bt \<in> S"
      using Cons.IH [where bt = bt and pend = "?b" and c = "Suc c", OF Cons.prems(1) vs len] by simp
    show ?thesis
      using ih False v
      by (simp add: restore_rows_verified del: restore_rows.simps)
  qed
qed

lemma bulk_calls_append: "bulk_calls (xs @ ys) = bulk_calls xs @ bulk_calls ys"
  by (induction xs rule: bulk_calls.induct) simp_all

lemma bulk_calls_batch_events:
  "bulk_calls (batch_events B t bs bt) = map (\<lambda>b. (t, map fst b, map snd b)) bs"
  by (induction bs arbitrary: bt) (auto split: prod.splits)

lemma restore_rows_final:
  assumes "accepts B t S" "bt \<in> S" "length ks = length ms"
  shows "fst (restore_rows L B t [] c ks ms bt) = None \<and>
         bulk_calls (snd (snd (restore_rows L B t [] c ks ms bt))) =
           (if ms = [] then [] else [(t, ks, ms)])"
proof (cases "ms = []")
  case True
  then show ?thesis by simp
next
  case False
  obtain errs err bt1 where ab: "ApplyBulk B t ks ms bt = ((errs, err), bt1)"
    by (metis prod.exhaust)
  have ok: "write_error errs err = None"
    using assms ab unfolding accepts_def
    by (auto dest!: bspec [where x = bt] spec [where x = ks] spec [where x = ms])
  show ?thesis using False ab ok by (simp add: emit_def)
qed

lemma MemBT_accepts: "accepts MemBT t {bt. t \<in> fst ` set bt}"
  by (auto simp: accepts_def MemBT_def mem_ApplyBulk_def write_error_def split: prod.splits)
     (force simp: image_iff split: if_splits)+

lemma restore_rows_corrupt:
  "\<forall>r\<in>set pre. verified L r \<Longrightarrow> \<not> verified L bad \<Longrightarrow> length pend < 100 \<Longrightarrow>
   fst (restore_rows L B t (map Inr pre @ Inr bad # post) c (map fst pend) (map snd pend) bt) \<noteq> None \<and>
   prefix (bulk_calls (snd (snd (restore_rows L B t (map Inr pre @ Inr bad # post) c
                                   (map fst pend) (map snd pend) bt))))
          (map (\<lambda>b. (t, map fst b, map snd b)) (full_batches (pend @ map entry pre)))"
proof (induction pre arbitrary: bt c pend)
  case Nil
  then show ?case by (simp add: verified_def Let_def)
next
  case (Cons r pre)
  have v: "verified L r" and vs: "\<forall>r\<in>set pre. verified L r" using Cons.prems(1) by auto
  show ?case
  proof (cases "length pend = 99")
    case True
    let ?b = "pend @ [entry r]"
    have len: "length ?b = 100" using True by simp
    obtain errs err bt1 where ab: "ApplyBulk B t (map fst ?b) (map snd ?b) bt = ((errs, err), bt1)"
      by (metis prod.exhaust)
    have all: "pend @ entry r # map entry pre = ?b @ map entry pre" by simp
    have fb: "full_batches (pend @ entry r # map entry pre) = ?b # full_batches (map entry pre)"
      unfolding all by (rule full_batches_100 [OF len])
    show ?thesis
    proof (cases "write_error errs err")
      case None
      have ih: "fst (restore_rows L B t (map Inr pre @ Inr bad # post) (Suc c) [] [] bt1) \<noteq> None \<and>
                prefix (bulk_calls (snd (snd (restore_rows L B t (map Inr pre @ Inr bad # post) (Suc c) [] [] bt1))))
                  (map (\<lambda>b. (t, map fst b, map snd b)) (full_batches (map entry pre)))"
        using Cons.IH [where bt = bt1 and pend = "[]" and c = "Suc c", OF vs Cons.prems(2)] by simp
      show ?thesis
        using ih True v ab None
        by (cases "restore_rows L B t (map Inr pre @ Inr bad # post) (Suc c) [] [] bt1")
           (simp add: restore_rows_verified fb emit_def del: restore_rows.simps)
    next
      case (Some e)
      show ?thesis
        using True v ab Some
        by (simp add: restore_rows_verified fb emit_def del: restore_rows.simps)
    qed
  next
    case False
    let ?b = "pend @ [entry r]"
    have len: "length ?b < 100" using False Cons.prems(3) by simp
    show ?thesis
      using Cons.IH [where bt = bt and pend = "?b" and c = "Suc c", OF vs Cons.prems(2) len] False v
      by (simp add: restore_rows_verified del: restore_rows.simps)
  qed
qed

lemma restore_rows_mismatch:
  "\<not> verified L bad \<Longrightarrow>
   restore_rows L B t (Inr bad # post) c ks ms bt =
     (Some (IntegrityCheckFailed (chk bad) (restore_hash L bad)), bt, [])"
  by (simp add: verified_def Let_def)

lemma restore_hash_chk [simp]: "restore_hash L (r\<lparr>chk := x\<rparr>) = restore_hash L r"
  by (simp add: restore_hash_def restore_time_def)

lemma restore_rows_write_error:
  "restore_rows L B t rows c ks ms bt = (e, bt', tr) \<Longrightarrow>
   tr = pre @ Call_ApplyBulk t' ks' ms' errs err # post \<Longrightarrow>
   write_error errs err = Some we \<Longrightarrow> post = [] \<and> e = Some we"
proof (induction rows arbitrary: c ks ms bt e bt' tr pre)
  case base: Nil
  show ?case
  proof (cases "ms = []")
    case True
    with base show ?thesis by (cases pre) auto
  next
    case False
    obtain errs0 err0 bt0 where ab: "ApplyBulk B t ks ms bt = ((errs0, err0), bt0)"
      by (metis prod.exhaust)
    show ?thesis
    proof (cases pre)
      case Nil
      with base.prems False ab show ?thesis
        by (auto simp: emit_def split: option.splits)
    next
      case (Cons p pre')
      with base.prems False ab show ?thesis
        by (cases pre') (auto simp: emit_def split: option.splits)
    qed
  qed
next
  case step: (Cons row rows)
  show ?case
  proof (cases row)
    case (Inl x)
    with step.prems show ?thesis by simp
  next
    case (Inr r)
    show ?thesis
    proof (cases "verified L r")
      case False
      have "restore_rows L B t (Inr r # rows) c ks ms bt =
              (Some (IntegrityCheckFailed (chk r) (restore_hash L r)), bt, [])"
        by (rule restore_rows_mismatch [OF False])
      with step.prems(1) Inr have "tr = []" by simp
      with step.prems(2) show ?thesis by simp
    next
      case True
      show ?thesis
      proof (cases "length ms = 99")
        case l: False
        have "restore_rows L B t rows (Suc c) (ks @ [fst (entry r)]) (ms @ [snd (entry r)]) bt = (e, bt', tr)"
          using step.prems(1) True l unfolding Inr
          by (simp add: restore_rows_verified del: restore_rows.simps)
        from step.IH [OF this step.prems(2) step.prems(3)] show ?thesis .
      next
        case l: True
        let ?ks = "ks @ [fst (entry r)]" and ?ms = "ms @ [snd (entry r)]"
        obtain errs0 err0 bt0 where ab: "ApplyBulk B t ?ks ?ms bt = ((errs0, err0), bt0)"
          by (metis prod.exhaust)
        show ?thesis
        proof (cases "write_error errs0 err0")
          case (Some e0)
          have "e = Some e0 \<and> tr = [Call_ApplyBulk t ?ks ?ms errs0 err0]"
            using step.prems(1) True l ab Some unfolding Inr
            by (simp add: restore_rows_verified emit_def del: restore_rows.simps)
          with step.prems(2) step.prems(3) Some show ?thesis
            by (cases pre) auto
        next
          case None
          obtain e1 bt1 tr1 where rec: "restore_rows L B t rows (Suc c) [] [] bt0 = (e1, bt1, tr1)"
            by (metis prod.exhaust)
          have res: "e = e1 \<and> tr = Call_ApplyBulk t ?ks ?ms errs0 err0 # tr1"
            using step.prems(1) True l ab None rec unfolding Inr
            by (simp add: restore_rows_verified emit_def del: restore_rows.simps)
          show ?thesis
          proof (cases pre)
            case Nil
            with res step.prems(2) step.prems(3) None show ?thesis by simp
          next
            case (Cons p pre')
            with res step.prems(2) have "tr1 = pre' @ Call_ApplyBulk t' ks' ms' errs err # post"
              by simp
            from step.IH [OF rec this step.prems(3)] res show ?thesis by simp
          qed
        qed
      qed
    qed
  qed
qed

section \<open>Runs on the example rows\<close>

lemma sealed_fields [simp]:
  "key (sealed L r) = key r" "column_family (sealed L r) = column_family r"
  "column (sealed L r) = column r" "val (sealed L r) = val r"
  "timestamp (sealed L r) = timestamp r" "chk (sealed L r) = restore_hash L r"
  "restore_time (sealed L r) = restore_time r"
  by (simp_all add: sealed_def restore_time_def)

lemmas run_eval = RestoreTable_def MemSql_def mem_QueryRows_def emit_def emits_def Let_def
  entry_def write_error_def MemBT_def mem_ApplyBulk_def rejecting_def apply_entry_def

lemma rejecting1_run:
  "RestoreTable GoUTC (rejecting 1) MemSql ''t'' [(''t'', [])]
     [(''t'', [sealed GoUTC example_row, sealed GoUTC (example_row\<lparr>key := ''r2''\<rparr>)])] =
   (Some (WriteErrors 1 ''rejected''),
    [(''t'', [((''r1'', ''cf1'', ''mycolumn'', 1700000000123000), ''v'')])],
    [Restoring ''t'',
     Call_ApplyBulk ''t'' [''r1'', ''r2'']
       [SetCell ''cf1'' ''mycolumn'' 1700000000123000 ''v'',
        SetCell ''cf1'' ''mycolumn'' 1700000000123000 ''v'']
       [None, Some ''rejected''] None])"
  by (simp add: run_eval time_eval example_row_def upt_rec)

lemma rejecting0_run:
  "RestoreTable GoUTC (rejecting 0) MemSql ''t'' [(''t'', [])]
     [(''t'', [sealed GoUTC example_row, sealed GoUTC (example_row\<lparr>key := ''r2''\<rparr>)])] =
   (Some (WriteErrors 1 ''rejected''),
    [(''t'', [((''r2'', ''cf1'', ''mycolumn'', 1700000000123000), ''v'')])],
    [Restoring ''t'',
     Call_ApplyBulk ''t'' [''r1'', ''r2'']
       [SetCell ''cf1'' ''mycolumn'' 1700000000123000 ''v'',
        SetCell ''cf1'' ''mycolumn'' 1700000000123000 ''v'']
       [Some ''rejected'', None] None])"
  by (simp add: run_eval time_eval example_row_def upt_rec)

lemma TrimPrefix_qualified: "TrimPrefix (cf @ '':'' @ q) (cf @ '':'') = q"
  by (simp add: TrimPrefix_def)

lemma save_row_column:
  assumes "Column item = cf @ '':'' @ q"
  shows "column (save_row L cf item) = q" and "column (save_row L cf item) \<noteq> Column item"
proof -
  show c: "column (save_row L cf item) = q"
    using assms by (simp add: save_row_def Let_def TrimPrefix_def)
  have "length (Column item) = length cf + 1 + length q"
    using assms by simp
  then have "Column item \<noteq> q" by auto
  with c show "column (save_row L cf item) \<noteq> Column item" by simp
qed

lemma example_scan:
  "ReadRows MemBT ''t'' [(''t'', [((''r1'', ''cf1'', ''mycolumn'', 1700000000123000), ''v'')])] =
     ([[(''cf1'', [\<lparr>Row = ''r1'', Column = ''cf1:mycolumn'', Timestamp = 1700000000123000, Value = ''v''\<rparr>])]], None)"
  by (simp add: MemBT_def mem_ReadRows_def)

section \<open>The order of the events of a run\<close>

lemma restore_rows_events: "list_all loop_event (snd (snd (restore_rows L B t rows c ks ms bt)))"
proof (induction rows arbitrary: c ks ms bt)
  case Nil
  show ?case
    by (auto simp: emit_def loop_event_def split: prod.splits option.splits)
next
  case (Cons row rows)
  show ?case
  proof (cases row)
    case (Inl x)
    then show ?thesis by simp
  next
    case (Inr r)
    show ?thesis
    proof (cases "verified L r")
      case False
      then show ?thesis unfolding Inr by (simp add: restore_rows_mismatch del: restore_rows.simps)
    next
      case True
      have call: "loop_event (Call_ApplyBulk t' ks' ms' errs err)" for t' ks' ms' errs err
        by (simp add: loop_event_def)
      show ?thesis
      proof (cases "length ms = 99")
        case False
        then show ?thesis
          unfolding Inr restore_rows_verified [OF True] using Cons.IH by simp
      next
        case l: True
        obtain errs0 err0 bt0 where
          ab: "ApplyBulk B t (ks @ [fst (entry r)]) (ms @ [snd (entry r)]) bt = ((errs0, err0), bt0)"
          by (metis prod.exhaust)
        show ?thesis
        proof (cases "write_error errs0 err0")
          case (Some e0)
          then show ?thesis
            unfolding Inr restore_rows_verified [OF True] using l ab call
            by (simp add: emit_def)
        next
          case None
          then show ?thesis
            unfolding Inr restore_rows_verified [OF True]
            using l ab call Cons.IH [of "Suc c" "[]" "[]" bt0]
            by (cases "restore_rows L B t rows (Suc c) [] [] bt0") (simp add: emit_def)
        qed
      qed
    qed
  qed
qed

lemma loop_events_orders:
  "list_all loop_event tr \<Longrightarrow> restoring_order tr = [] \<and> cleared tr = [] \<and> saving_order tr = []"
  by (induction tr) (auto simp: loop_event_def split: event.splits)

lemma cleared_append: "cleared (xs @ ys) = cleared xs @ cleared ys"
  by (induction xs rule: cleared.induct) simp_all

lemma restoring_order_append: "restoring_order (xs @ ys) = restoring_order xs @ restoring_order ys"
  by (induction xs rule: restoring_order.induct) simp_all

lemma saving_order_append: "saving_order (xs @ ys) = saving_order xs @ saving_order ys"
  by (induction xs rule: saving_order.induct) simp_all

lemma RestoreTable_trace:
  "\<exists>tr. snd (snd (RestoreTable L B D t bt db)) = Restoring t # tr \<and> list_all loop_event tr"
proof (cases "QueryRows D t db")
  case (Inl err)
  then show ?thesis by (simp add: RestoreTable_def emit_def)
next
  case (Inr rows)
  then show ?thesis
    using restore_rows_events [of L B t rows 0 "[]" "[]" bt]
    by (cases "restore_rows L B t rows 0 [] [] bt") (simp add: RestoreTable_def emit_def)
qed

lemma RestoreTable_orders:
  "restoring_order (snd (snd (RestoreTable L B D t bt db))) = [t]"
  "cleared (snd (snd (RestoreTable L B D t bt db))) = []"
  using RestoreTable_trace [of L B D t bt db] loop_events_orders by auto

lemma restore_tables_orders:
  "prefix (restoring_order (snd (snd (restore_tables L B D names bt db)))) (scanned_names names) \<and>
   cleared (snd (snd (restore_tables L B D names bt db))) = [] \<and>
   (fst (restore_tables L B D names bt db) = None \<longrightarrow>
      map Inr (restoring_order (snd (snd (restore_tables L B D names bt db)))) = names)"
proof (induction names arbitrary: bt)
  case Nil
  show ?case by simp
next
  case (Cons n names)
  show ?case
  proof (cases n)
    case (Inl err)
    then show ?thesis by simp
  next
    case (Inr table)
    obtain e bt1 tr where rt: "RestoreTable L B D table bt db = (e, bt1, tr)"
      by (metis prod.exhaust)
    have o: "restoring_order tr = [table]" "cleared tr = []"
      using RestoreTable_orders [of L B D table bt db] rt by simp_all
    show ?thesis
    proof (cases e)
      case Some
      with rt o Inr show ?thesis by simp
    next
      case None
      obtain e2 bt2 tr2 where rec: "restore_tables L B D names bt1 db = (e2, bt2, tr2)"
        by (metis prod.exhaust)
      with Cons.IH [of bt1] rt o None Inr show ?thesis
        by (simp add: emits_def restoring_order_append cleared_append)
    qed
  qed
qed

lemma drop_tables_trace:
  "\<exists>k. snd (snd (drop_tables B tables bt)) = map Call_DropAllRows (take k tables) \<and>
       (fst (drop_tables B tables bt) = None \<longrightarrow> take k tables = tables)"
proof (induction tables arbitrary: bt)
  case Nil
  show ?case by simp
next
  case (Cons t tables)
  obtain err bt1 where d: "DropAllRows B t bt = (err, bt1)" by (metis prod.exhaust)
  show ?case
  proof (cases err)
    case (Some m)
    show ?thesis
      by (rule exI [where x = 1]) (use d Some in \<open>simp add: emit_def\<close>)
  next
    case None
    from Cons.IH [of bt1] obtain k where
      k: "snd (snd (drop_tables B tables bt1)) = map Call_DropAllRows (take k tables) \<and>
          (fst (drop_tables B tables bt1) = None \<longrightarrow> take k tables = tables)" ..
    obtain e2 bt2 tr2 where rec: "drop_tables B tables bt1 = (e2, bt2, tr2)"
      by (metis prod.exhaust)
    show ?thesis
      by (rule exI [where x = "Suc k"]) (use d None k rec in \<open>simp add: emit_def\<close>)
  qed
qed

lemma cleared_drops: "cleared (map Call_DropAllRows ts) = ts"
  by (induction ts) simp_all

lemma restoring_order_drops: "restoring_order (map Call_DropAllRows ts) = []"
  by (induction ts) simp_all

lemma SaveTable_order: "saving_order (snd (snd (SaveTable L B D t bt db))) = [t]"
  by (auto simp: SaveTable_def save_scan_def emit_def split: option.splits prod.splits)

lemma save_tables_order:
  "prefix (saving_order (snd (snd (save_tables L B D tables bt db)))) tables \<and>
   (fst (save_tables L B D tables bt db) = None \<longrightarrow>
      saving_order (snd (snd (save_tables L B D tables bt db))) = tables)"
proof (induction tables arbitrary: db)
  case Nil
  show ?case by simp
next
  case (Cons t tables)
  obtain e db1 tr where st: "SaveTable L B D t bt db = (e, db1, tr)" by (metis prod.exhaust)
  have o: "saving_order tr = [t]" using SaveTable_order [of L B D t bt db] st by simp
  show ?case
  proof (cases e)
    case Some
    with st o show ?thesis by simp
  next
    case None
    obtain e2 db2 tr2 where rec: "save_tables L B D tables bt db1 = (e2, db2, tr2)"
      by (metis prod.exhaust)
    with Cons.IH [of db1] st o None show ?thesis
      by (simp add: emits_def saving_order_append)
  qed
qed

section \<open>The trace and the remote store\<close>

lemma replay_append: "replay B (xs @ ys) bt = replay B ys (replay B xs bt)"
  by (induction B xs bt rule: replay.induct) simp_all

lemma answered_append: "answered B (xs @ ys) bt = (answered B xs bt \<and> answered B ys (replay B xs bt))"
  by (induction B xs bt rule: answered.induct) simp_all

lemma restore_rows_replay:
  "fst (snd (restore_rows L B t rows c ks ms bt)) =
     replay B (snd (snd (restore_rows L B t rows c ks ms bt))) bt \<and>
   answered B (snd (snd (restore_rows L B t rows c ks ms bt))) bt"
proof (induction rows arbitrary: c ks ms bt)
  case Nil
  show ?case
  proof (cases "ms = []")
    case True
    then show ?thesis by simp
  next
    case False
    obtain errs0 err0 bt0 where ab: "ApplyBulk B t ks ms bt = ((errs0, err0), bt0)"
      by (metis prod.exhaust)
    show ?thesis
      using False ab by (cases "write_error errs0 err0") (simp_all add: emit_def)
  qed
next
  case (Cons row rows)
  show ?case
  proof (cases row)
    case (Inl x)
    then show ?thesis by simp
  next
    case (Inr r)
    show ?thesis
    proof (cases "verified L r")
      case False
      then show ?thesis unfolding Inr by (simp add: restore_rows_mismatch del: restore_rows.simps)
    next
      case True
      show ?thesis
      proof (cases "length ms = 99")
        case False
        then show ?thesis
          unfolding Inr restore_rows_verified [OF True] using Cons.IH by simp
      next
        case l: True
        obtain errs0 err0 bt0 where
          ab: "ApplyBulk B t (ks @ [fst (entry r)]) (ms @ [snd (entry r)]) bt = ((errs0, err0), bt0)"
          by (metis prod.exhaust)
        show ?thesis
        proof (cases "write_error errs0 err0")
          case (Some e0)
          then show ?thesis
            unfolding Inr restore_rows_verified [OF True] using l ab
            by (simp add: emit_def)
        next
          case None
          then show ?thesis
            unfolding Inr restore_rows_verified [OF True]
            using l ab Cons.IH [of "Suc c" "[]" "[]" bt0]
            by (cases "restore_rows L B t rows (Suc c) [] [] bt0") (simp add: emit_def)
        qed
      qed
    qed
  qed
qed

lemma RestoreTable_replay:
  "fst (snd (RestoreTable L B D t bt db)) = replay B (snd (snd (RestoreTable L B D t bt db))) bt \<and>
   answered B (snd (snd (RestoreTable L B D t bt db))) bt"
proof (cases "QueryRows D t db")
  case (Inl err)
  then show ?thesis by (simp add: RestoreTable_def emit_def)
next
  case (Inr rows)
  then show ?thesis
    using restore_rows_replay [of L B t rows 0 "[]" "[]" bt]
    by (cases "restore_rows L B t rows 0 [] [] bt") (simp add: RestoreTable_def emit_def)
qed

lemma restore_tables_replay:
  "fst (snd (restore_tables L B D names bt db)) =
     replay B (snd (snd (restore_tables L B D names bt db))) bt \<and>
   answered B (snd (snd (restore_tables L B D names bt db))) bt \<and>
   fst (snd (restore_tables L B D names bt db)) =
     foldl (\<lambda>bt t. fst (snd (RestoreTable L B D t bt db))) bt
       (restoring_order (snd (snd (restore_tables L B D names bt db))))"
proof (induction names arbitrary: bt)
  case Nil
  show ?case by simp
next
  case (Cons n names)
  show ?case
  proof (cases n)
    case (Inl err)
    then show ?thesis by simp
  next
    case (Inr table)
    obtain e bt1 tr where rt: "RestoreTable L B D table bt db = (e, bt1, tr)"
      by (metis prod.exhaust)
    have o: "restoring_order tr = [table]"
      using RestoreTable_orders(1) [of L B D table bt db] rt by simp
    have rp: "bt1 = replay B tr bt" "answered B tr bt"
      using RestoreTable_replay [of L B D table bt db] rt by simp_all
    show ?thesis
    proof (cases e)
      case Some
      with rt o rp Inr show ?thesis by simp
    next
      case None
      obtain e2 bt2 tr2 where rec: "restore_tables L B D names bt1 db = (e2, bt2, tr2)"
        by (metis prod.exhaust)
      note ih0 = Cons.IH [of bt1, unfolded rec fst_conv snd_conv]
      have ih: "replay B tr2 bt1 = bt2" "answered B tr2 bt1"
        "foldl (\<lambda>bt t. fst (snd (RestoreTable L B D t bt db))) bt1 (restoring_order tr2) = bt2"
        using ih0 [THEN conjunct1, symmetric] ih0 [THEN conjunct2, THEN conjunct1]
          ih0 [THEN conjunct2, THEN conjunct2, symmetric]
        by - assumption+
      have run: "restore_tables L B D (n # names) bt db = (e2, bt2, tr @ tr2)"
        using rt None Inr rec by (simp add: emits_def)
      have a: "replay B (tr @ tr2) bt = bt2"
        by (simp add: replay_append rp(1) [symmetric] ih(1))
      have b: "answered B (tr @ tr2) bt"
        by (simp add: answered_append rp(2) rp(1) [symmetric] ih(2))
      have c: "foldl (\<lambda>bt t. fst (snd (RestoreTable L B D t bt db))) bt
                 (restoring_order (tr @ tr2)) = bt2"
        by (simp add: restoring_order_append o rt ih(3))
      show ?thesis
        unfolding run using a b c by simp
    qed
  qed
qed

lemma drop_tables_replay:
  "fst (snd (drop_tables B tables bt)) = replay B (snd (snd (drop_tables B tables bt))) bt \<and>
   answered B (snd (snd (drop_tables B tables bt))) bt"
proof (induction tables arbitrary: bt)
  case Nil
  show ?case by simp
next
  case (Cons t tables)
  obtain err bt1 where d: "DropAllRows B t bt = (err, bt1)" by (metis prod.exhaust)
  show ?case
  proof (cases err)
    case (Some m)
    with d show ?thesis by (simp add: emit_def)
  next
    case None
    with d Cons.IH [of bt1] show ?thesis
      by (cases "drop_tables B tables bt1") (simp add: emit_def)
  qed
qed

lemma replay_drops:
  "replay B (map Call_DropAllRows ts) bt = foldl (\<lambda>bt t. snd (DropAllRows B t bt)) bt ts"
  by (induction ts arbitrary: bt) simp_all

lemma Restore_replay:
  "fst (snd (Restore L B D bt db)) = replay B (snd (snd (Restore L B D bt db))) bt \<and>
   answered B (snd (snd (Restore L B D bt db))) bt \<and>
   fst (snd (Restore L B D bt db)) =
     foldl (\<lambda>bt t. fst (snd (RestoreTable L B D t bt db)))
       (foldl (\<lambda>bt t. snd (DropAllRows B t bt)) bt (cleared (snd (snd (Restore L B D bt db)))))
       (restoring_order (snd (snd (Restore L B D bt db))))"
proof (cases "Tables B bt")
  case (Inl err)
  then show ?thesis by (simp add: Restore_def)
next
  case (Inr tables)
  obtain k where k: "snd (snd (drop_tables B (sort tables) bt)) = map Call_DropAllRows (take k (sort tables)) \<and>
       (fst (drop_tables B (sort tables) bt) = None \<longrightarrow> take k (sort tables) = sort tables)"
    using drop_tables_trace [of B "sort tables" bt] ..
  obtain e1 bt1 tr1 where d: "drop_tables B (sort tables) bt = (e1, bt1, tr1)"
    by (metis prod.exhaust)
  have tr1: "tr1 = map Call_DropAllRows (take k (sort tables))" using k d by simp
  have rp1: "bt1 = replay B tr1 bt" "answered B tr1 bt"
    using drop_tables_replay [of B "sort tables" bt] d by simp_all
  have f1: "bt1 = foldl (\<lambda>bt t. snd (DropAllRows B t bt)) bt (cleared tr1)"
    using rp1(1) unfolding tr1 by (simp add: replay_drops cleared_drops)
  have r1: "restoring_order tr1 = []" unfolding tr1 by (rule restoring_order_drops)
  show ?thesis
  proof (cases e1)
    case (Some e)
    then have "Restore L B D bt db = (Some e, bt1, tr1)"
      using Inr d by (simp add: Restore_def)
    then show ?thesis using rp1 f1 r1 by simp
  next
    case None
    show ?thesis
    proof (cases "QueryTables D db")
      case (Inl err)
      then have "Restore L B D bt db = (Some QueryTableListFailed, bt1, tr1)"
        using Inr d None by (simp add: Restore_def emits_def)
      then show ?thesis using rp1 f1 r1 by simp
    next
      case names: (Inr names)
      obtain e2 bt2 tr2 where r: "restore_tables L B D names bt1 db = (e2, bt2, tr2)"
        by (metis prod.exhaust)
      have run: "Restore L B D bt db = (e2, bt2, tr1 @ tr2)"
        using Inr d None names r by (simp add: Restore_def emits_def)
      have c2: "cleared tr2 = []"
        using restore_tables_orders [of L B D names bt1 db] r by simp
      note rt0 = restore_tables_replay [of L B D names bt1 db, unfolded r fst_conv snd_conv]
      have rp2: "replay B tr2 bt1 = bt2" "answered B tr2 bt1"
        "foldl (\<lambda>bt t. fst (snd (RestoreTable L B D t bt db))) bt1 (restoring_order tr2) = bt2"
        using rt0 [THEN conjunct1, symmetric] rt0 [THEN conjunct2, THEN conjunct1]
          rt0 [THEN conjunct2, THEN conjunct2, symmetric]
        by - assumption+
      have a: "replay B (tr1 @ tr2) bt = bt2"
        by (simp add: replay_append rp1(1) [symmetric] rp2(1))
      have b: "answered B (tr1 @ tr2) bt"
        by (simp add: answered_append rp1(2) rp1(1) [symmetric] rp2(2))
      have c: "foldl (\<lambda>bt t. fst (snd (RestoreTable L B D t bt db)))
                 (foldl (\<lambda>bt t. snd (DropAllRows B t bt)) bt (cleared (tr1 @ tr2)))
                 (restoring_order (tr1 @ tr2)) = bt2"
        by (simp add: cleared_append restoring_order_append c2 r1 f1 [symmetric] rp2(3))
      show ?thesis
        unfolding run using a b c by simp
    qed
  qed
qed

lemma save_tables_fold:
  "fst (snd (save_tables L B D tables bt db)) =
     foldl (\<lambda>db t. fst (snd (SaveTable L B D t bt db))) db
       (saving_order (snd (snd (save_tables L B D tables bt db))))"
proof (induction tables arbitrary: db)
  case Nil
  show ?case by simp
next
  case (Cons t tables)
  obtain e db1 tr where st: "SaveTable L B D t bt db = (e, db1, tr)" by (metis prod.exhaust)
  have o: "saving_order tr = [t]" using SaveTable_order [of L B D t bt db] st by simp
  show ?case
  proof (cases e)
    case Some
    with st o show ?thesis by simp
  next
    case None
    obtain e2 db2 tr2 where rec: "save_tables L B D tables bt db1 = (e2, db2, tr2)"
      by (metis prod.exhaust)
    from Cons.IH [of db1] rec
    have ih: "foldl (\<lambda>db t. fst (snd (SaveTable L B D t bt db))) db1 (saving_order tr2) = db2"
      by simp
    have run: "save_tables L B D (t # tables) bt db = (e2, db2, tr @ tr2)"
      using st None rec by (simp add: emits_def)
    show ?thesis
      unfolding run by (simp add: saving_order_append o st ih)
  qed
qed

lemma run_batches_append:
  "run_batches B t (xs @ ys) bt = run_batches B t ys (run_batches B t xs bt)"
  by (induction xs arbitrary: bt) simp_all

lemma restore_rows_final_store:
  "fst (snd (restore_rows L B t [] c ks ms bt)) =
     (if ms = [] then bt else snd (ApplyBulk B t ks ms bt))"
  by (cases "ApplyBulk B t ks ms bt")
     (auto simp: emit_def split: prod.splits option.splits)

lemma mem_run_batches:
  "run_batches MemBT t bs [(t, cells)] = [(t, fold apply_entry (concat bs) cells)]"
  by (induction bs arbitrary: cells) (simp_all add: MemBT_def mem_ApplyBulk_def zip_map_fst_snd)

lemma concat_batches100: "concat (batches100 xs) = xs"
proof (cases "remainder xs = []")
  case True
  have "concat (full_batches xs) = concat (full_batches xs) @ remainder xs"
    using True by simp
  also have "\<dots> = xs" by (rule full_batches_concat)
  finally show ?thesis using True by (simp add: batches100_def)
next
  case False
  then show ?thesis by (simp add: batches100_def full_batches_concat)
qed

lemma fold_same_entry:
  "fold apply_entry (replicate n e) (apply_entry e cells) = apply_entry e cells"
  by (induction n) (simp_all add: apply_entry_def split: prod.splits Mutation.splits)



lemma empty_scan: "ReadRows MemBT t ((t, []) # bt) = ([], None)"
  by (simp add: MemBT_def mem_ReadRows_def)

lemmas listing_eval = MemSql_def mem_QueryTables_def mem_QueryRows_def like_sqlite_def
  MemBT_def mem_Tables_def mem_DropAllRows_def

lemma first_save: "SaveAll GoUTC MemBT MemSql [(''c'', [])] [] =
    (None, [(''c'', [])], [Saving ''c'', Saved 0 ''c''])"
  by (simp add: SaveAll_def mem_Tables_def MemBT_def mem_SaveTable [OF empty_scan, unfolded MemBT_def]
      saved_rows_def scanned_items_def without_def emits_def)


lemma second_save: "SaveAll GoUTC MemBT MemSql [(''b'', []), (''a'', [])] [(''c'', [])] =
    (None, [(''c'', []), (''a'', []), (''b'', [])],
     [Saving ''a'', Saved 0 ''a'', Saving ''b'', Saved 0 ''b''])"
proof -
  have a: "ReadRows MemBT ''a'' [(''b'', []), (''a'', [])] = ([], None)"
    and b: "ReadRows MemBT ''b'' [(''b'', []), (''a'', [])] = ([], None)"
    by (simp_all add: MemBT_def mem_ReadRows_def)
  have t: "Tables MemBT [(''b'', []), (''a'', [])] = Inr [''b'', ''a'']"
    by (simp add: MemBT_def mem_Tables_def)
  show ?thesis
    by (simp add: SaveAll_def t mem_SaveTable [OF a] mem_SaveTable [OF b]
        saved_rows_def scanned_items_def without_def emits_def)
qed

lemma mixed_restore:
  "Restore GoUTC MemBT MemSql [(''b'', []), (''a'', []), (''c'', [])]
     [(''c'', []), (''a'', []), (''b'', [])] =
   (None, [(''b'', []), (''a'', []), (''c'', [])],
    [Call_DropAllRows ''a'', Call_DropAllRows ''b'', Call_DropAllRows ''c'',
     Restoring ''c'', Restored 0 ''c'', Restoring ''a'', Restored 0 ''a'',
     Restoring ''b'', Restored 0 ''b''])"
  by (simp add: Restore_def RestoreTable_def listing_eval emit_def emits_def)


lemma third_save:
  "SaveAll GoUTC MemBT MemSql [(''b'', []), (''a'', []), (''c'', [])]
     [(''c'', []), (''a'', []), (''b'', [])] =
   (None, [(''a'', []), (''b'', []), (''c'', [])],
    [Saving ''a'', Saved 0 ''a'', Saving ''b'', Saved 0 ''b'', Saving ''c'', Saved 0 ''c''])"
proof -
  have a: "ReadRows MemBT ''a'' [(''b'', []), (''a'', []), (''c'', [])] = ([], None)"
    and b: "ReadRows MemBT ''b'' [(''b'', []), (''a'', []), (''c'', [])] = ([], None)"
    and c: "ReadRows MemBT ''c'' [(''b'', []), (''a'', []), (''c'', [])] = ([], None)"
    by (simp_all add: MemBT_def mem_ReadRows_def)
  have t: "Tables MemBT [(''b'', []), (''a'', []), (''c'', [])] = Inr [''b'', ''a'', ''c'']"
    by (simp add: MemBT_def mem_Tables_def)
  show ?thesis
    by (simp add: SaveAll_def t mem_SaveTable [OF a] mem_SaveTable [OF b] mem_SaveTable [OF c]
        saved_rows_def scanned_items_def without_def emits_def)
qed


lemma batch_events_append:
  "batch_events B t (xs @ ys) bt = batch_events B t xs bt @ batch_events B t ys (run_batches B t xs bt)"
  by (induction xs arbitrary: bt) (simp_all split: prod.splits)

lemma restore_rows_final_exact:
  assumes "accepts B t S" "bt \<in> S"
  shows "restore_rows L B t [] c (map fst rem) (map snd rem) bt =
           (None, run_batches B t (if rem = [] then [] else [rem]) bt,
            batch_events B t (if rem = [] then [] else [rem]) bt @ [Restored c t])"
proof (cases "rem = []")
  case True
  then show ?thesis by simp
next
  case False
  obtain errs err bt1 where ab: "ApplyBulk B t (map fst rem) (map snd rem) bt = ((errs, err), bt1)"
    by (metis prod.exhaust)
  have ok: "write_error errs err = None"
    using assms ab unfolding accepts_def
    by (auto dest!: bspec [where x = bt] spec [where x = "map fst rem"] spec [where x = "map snd rem"])
  show ?thesis using False ab ok by (simp add: emit_def)
qed


section \<open>A save followed by a restore\<close>

lemma mset_concat_map:
  assumes "mset xs = mset ys"
  shows "mset (concat (map f xs)) = mset (concat (map f ys))"
proof -
  have "mset (concat (map f zs)) = sum_mset (image_mset (mset \<circ> f) (mset zs))" for zs
    by (induction zs) simp_all
  with assms show ?thesis by simp
qed

lemma scanned_items_perm:
  "list_all2 (\<lambda>r r'. mset r = mset r') rows rows' \<Longrightarrow>
   mset (scanned_items rows') = mset (scanned_items rows)"
proof (induction rule: list_all2_induct)
  case Nil
  show ?case by simp
next
  case (Cons r rows r' rows')
  have "mset (concat (map (\<lambda>(cf, items). map (Pair cf) items) r)) =
        mset (concat (map (\<lambda>(cf, items). map (Pair cf) items) r'))"
    by (rule mset_concat_map [OF Cons.hyps(1)])
  with Cons.IH show ?case
    by (simp add: scanned_items_def)
qed

lemma without_again: "without t (without t db @ [(t, rs)]) = without t db"
  by (simp add: without_def)
















lemma two_family_scan:
  "ReadRows MemBT ''t''
     [(''t'', [((''r1'', ''cf1'', ''a'', 1700000000123000), []),
               ((''r1'', ''cf2'', ''b'', 1), [CHR 0x00, CHR ''y''])])] =
   ([[(''cf1'', [\<lparr>Row = ''r1'', Column = ''cf1:a'', Timestamp = 1700000000123000, Value = []\<rparr>]),
      (''cf2'', [\<lparr>Row = ''r1'', Column = ''cf2:b'', Timestamp = 1, Value = [CHR 0x00, CHR ''y'']\<rparr>])]],
    None)"
  by (simp add: MemBT_def mem_ReadRows_def)

lemma two_family_scan_swapped:
  "ReadRows MemBT ''t''
     [(''t'', [((''r1'', ''cf2'', ''b'', 1), [CHR 0x00, CHR ''y'']),
               ((''r1'', ''cf1'', ''a'', 1700000000123000), [])])] =
   ([[(''cf2'', [\<lparr>Row = ''r1'', Column = ''cf2:b'', Timestamp = 1, Value = [CHR 0x00, CHR ''y'']\<rparr>]),
      (''cf1'', [\<lparr>Row = ''r1'', Column = ''cf1:a'', Timestamp = 1700000000123000, Value = []\<rparr>])]],
    None)"
  by (simp add: MemBT_def mem_ReadRows_def)


section \<open>The claims\<close>

text \<open>
  C10. \<^verbatim>\<open>RestoreTable\<close> on a snapshot table without rows returns nil, makes no
  bulk write (the final flush is guarded by \<^verbatim>\<open>len(muts) > 0\<close>), leaves the remote
  store as it was and logs a count of 0 restored rows.
\<close>

theorem restore_empty_table:
  assumes "QueryRows D table db = Inr []"
  shows "RestoreTable L B D table bt db = (None, bt, [Restoring table, Restored 0 table])"
  using assms by (simp add: RestoreTable_def emit_def)

theorem restore_empty_table_witness:
  "QueryRows MemSql ''t'' [(''t'', [])] = Inr [] \<and>
   RestoreTable GoUTC MemBT MemSql ''t'' [(''t'', [])] [(''t'', [])] =
     (None, [(''t'', [])], [Restoring ''t'', Restored 0 ''t''])"
proof -
  have h: "QueryRows MemSql ''t'' [(''t'', [])] = Inr []"
    by (simp add: MemSql_def mem_QueryRows_def)
  show ?thesis
    using h restore_empty_table [OF h, of GoUTC MemBT "[(''t'', [])]"] by simp
qed

text \<open>
  C5. A snapshot row whose recomputed checksum differs from the stored one, after rows
  that pass the check: \<^verbatim>\<open>RestoreTable\<close> never returns nil, and whatever the remote store
  answers, its bulk writes are among the complete batches of 100 formed by the rows
  before the corrupted one, so neither that row nor any later row reaches a batch that is
  written. When the store accepts those writes, the error is the integrity error with
  the stored and the recomputed checksum, and the writes are exactly those batches.
\<close>

theorem corruption_detected:
  assumes "QueryRows D table db = Inr (map Inr pre @ Inr bad # post)"
    and "\<forall>r\<in>set pre. verified L r"
    and "\<not> verified L bad"
  shows "fst (RestoreTable L B D table bt db) \<noteq> None \<and>
         prefix (bulk_calls (snd (snd (RestoreTable L B D table bt db))))
                (map (\<lambda>b. (table, map fst b, map snd b)) (full_batches (map entry pre))) \<and>
         (accepts B table S \<and> bt \<in> S \<longrightarrow>
            fst (RestoreTable L B D table bt db) =
              Some (IntegrityCheckFailed (chk bad) (restore_hash L bad)) \<and>
            bulk_calls (snd (snd (RestoreTable L B D table bt db))) =
              map (\<lambda>b. (table, map fst b, map snd b)) (full_batches (map entry pre)))"
proof -
  let ?rows = "map Inr pre @ Inr bad # post"
  have run: "RestoreTable L B D table bt db = emit (Restoring table) (restore_rows L B table ?rows 0 [] [] bt)"
    using assms(1) by (simp add: RestoreTable_def)
  have gen: "fst (restore_rows L B table ?rows 0 [] [] bt) \<noteq> None \<and>
             prefix (bulk_calls (snd (snd (restore_rows L B table ?rows 0 [] [] bt))))
               (map (\<lambda>b. (table, map fst b, map snd b)) (full_batches (map entry pre)))"
    using restore_rows_corrupt [OF assms(2) assms(3), of "[]" B table post 0 bt] by simp
  have part1: "fst (RestoreTable L B D table bt db) \<noteq> None \<and>
         prefix (bulk_calls (snd (snd (RestoreTable L B D table bt db))))
                (map (\<lambda>b. (table, map fst b, map snd b)) (full_batches (map entry pre)))"
    using gen unfolding run
    by (cases "restore_rows L B table ?rows 0 [] [] bt") (simp add: emit_def)
  have part2: "fst (RestoreTable L B D table bt db) =
              Some (IntegrityCheckFailed (chk bad) (restore_hash L bad)) \<and>
            bulk_calls (snd (snd (RestoreTable L B D table bt db))) =
              map (\<lambda>b. (table, map fst b, map snd b)) (full_batches (map entry pre))"
    if acc: "accepts B table S" and bt: "bt \<in> S"
  proof -
    have "restore_rows L B table ?rows 0 [] [] bt =
            emits (batch_events B table (full_batches (map entry pre)) bt)
              (Some (IntegrityCheckFailed (chk bad) (restore_hash L bad)),
               run_batches B table (full_batches (map entry pre)) bt, [])"
      using restore_rows_split [OF acc bt assms(2), of "[]" "Inr bad # post" 0]
      by (simp add: restore_rows_mismatch [OF assms(3)] del: restore_rows.simps)
    then show ?thesis
      unfolding run by (simp add: emit_def emits_def bulk_calls_batch_events)
  qed
  show ?thesis using part1 part2 by blast
qed

theorem corruption_detected_witness:
  "fst (RestoreTable GoUTC MemBT MemSql ''t'' [(''t'', [])]
          [(''t'', replicate 101 (sealed GoUTC example_row) @
                   (sealed GoUTC example_row)\<lparr>val := ''w''\<rparr> # [sealed GoUTC example_row])]) =
     Some (IntegrityCheckFailed (chk ((sealed GoUTC example_row)\<lparr>val := ''w''\<rparr>))
             (restore_hash GoUTC ((sealed GoUTC example_row)\<lparr>val := ''w''\<rparr>))) \<and>
   length (bulk_calls (snd (snd (RestoreTable GoUTC MemBT MemSql ''t'' [(''t'', [])]
          [(''t'', replicate 101 (sealed GoUTC example_row) @
                   (sealed GoUTC example_row)\<lparr>val := ''w''\<rparr> # [sealed GoUTC example_row])])))) = 1"
proof -
  let ?g = "sealed GoUTC example_row"
  let ?bad = "?g\<lparr>val := ''w''\<rparr>"
  let ?db = "[(''t'', replicate 101 ?g @ ?bad # [?g])]"
  have h1: "QueryRows MemSql ''t'' ?db = Inr (map Inr (replicate 101 ?g) @ Inr ?bad # [Inr ?g])"
    by (simp add: MemSql_def mem_QueryRows_def)
  have h2: "\<forall>r\<in>set (replicate 101 ?g). verified GoUTC r"
    by simp
  have h3: "\<not> verified GoUTC ?bad"
    by (simp add: verified_def sealed_def example_row_def GoUTC_def hash_eval time_eval utc_eval
          doPrintf_plain)
  have acc: "accepts MemBT ''t'' {bt. ''t'' \<in> fst ` set bt} \<and>
             [(''t'', [])] \<in> {bt :: MemBT. ''t'' \<in> fst ` set bt}"
    using MemBT_accepts [of "''t''"] by simp
  note c = corruption_detected [OF h1 h2 h3, of MemBT "[(''t'', [])]" "{bt. ''t'' \<in> fst ` set bt}"]
  from c acc have r: "fst (RestoreTable GoUTC MemBT MemSql ''t'' [(''t'', [])] ?db) =
              Some (IntegrityCheckFailed (chk ?bad) (restore_hash GoUTC ?bad)) \<and>
            bulk_calls (snd (snd (RestoreTable GoUTC MemBT MemSql ''t'' [(''t'', [])] ?db))) =
              map (\<lambda>b. (''t'', map fst b, map snd b)) (full_batches (map entry (replicate 101 ?g)))"
    by blast
  then show ?thesis
    by (simp add: full_batches_length)
qed

text \<open>
  C6, as amended. Take any bulk write in the trace of \<^verbatim>\<open>RestoreTable\<close>. If the call
  returned an error, it is the last event and \<^verbatim>\<open>RestoreTable\<close> returns the write
  failure with the message of that error. If the call succeeded and some items report
  errors, it is the last event as well and the error returned carries the number of failed
  items and the message of the first of them. The error carries neither the position nor
  the row key of a failed item.
\<close>

theorem write_error_reported:
  assumes "RestoreTable L B D table bt db = (e, bt', tr)"
    and "tr = pre @ Call_ApplyBulk t ks ms errs err # post"
  shows "(\<forall>msg. err = Some msg \<longrightarrow> post = [] \<and> e = Some (WriteFailed msg)) \<and>
         (err = None \<and> filterErrors errs \<noteq> [] \<longrightarrow>
            post = [] \<and>
            e = Some (WriteErrors (length (filterErrors errs)) (hd (filterErrors errs))))"
proof -
  obtain rows where q: "QueryRows D table db = Inr rows"
    using assms
    by (cases "QueryRows D table db") (auto simp: RestoreTable_def emit_def Cons_eq_append_conv)
  obtain pre' where pre: "pre = Restoring table # pre'"
    and run: "restore_rows L B table rows 0 [] [] bt = (e, bt', pre' @ Call_ApplyBulk t ks ms errs err # post)"
    using assms q
    by (cases "restore_rows L B table rows 0 [] [] bt"; cases pre)
       (auto simp: RestoreTable_def emit_def)
  have key: "write_error errs err = Some we \<Longrightarrow> post = [] \<and> e = Some we" for we
    by (rule restore_rows_write_error [OF run refl])
  have first: "post = [] \<and> e = Some (WriteFailed msg)" if "err = Some msg" for msg
  proof -
    from that have "write_error errs err = Some (WriteFailed msg)" by (simp add: write_error_def)
    from key [OF this] show ?thesis .
  qed
  have second: "post = [] \<and>
      e = Some (WriteErrors (length (filterErrors errs)) (hd (filterErrors errs)))"
    if a: "err = None \<and> filterErrors errs \<noteq> []"
  proof -
    from a obtain m rest where f: "filterErrors errs = m # rest" by (cases "filterErrors errs") auto
    with a have "write_error errs err =
        Some (WriteErrors (length (filterErrors errs)) (hd (filterErrors errs)))"
      by (simp add: write_error_def)
    from key [OF this] show ?thesis .
  qed
  from first second show ?thesis by blast
qed

theorem write_error_reported_witness:
  "fst (RestoreTable GoUTC (rejecting 1) MemSql ''t'' [(''t'', [])]
          [(''t'', [sealed GoUTC example_row, sealed GoUTC (example_row\<lparr>key := ''r2''\<rparr>)])]) =
     Some (WriteErrors (length (filterErrors [None, Some ''rejected'']))
             (hd (filterErrors [None, Some ''rejected''])))"
proof -
  have h2: "[Restoring ''t'',
     Call_ApplyBulk ''t'' [''r1'', ''r2'']
       [SetCell ''cf1'' ''mycolumn'' 1700000000123000 ''v'',
        SetCell ''cf1'' ''mycolumn'' 1700000000123000 ''v'']
       [None, Some ''rejected''] None] =
     [Restoring ''t''] @ Call_ApplyBulk ''t'' [''r1'', ''r2'']
       [SetCell ''cf1'' ''mycolumn'' 1700000000123000 ''v'',
        SetCell ''cf1'' ''mycolumn'' 1700000000123000 ''v'']
       [None, Some ''rejected''] None # []"
    by simp
  have h3: "(None :: string option) = None \<and> filterErrors [None, Some ''rejected''] \<noteq> []"
    by simp
  from write_error_reported [OF rejecting1_run h2] h3
  have "Some (WriteErrors 1 ''rejected'') =
          Some (WriteErrors (length (filterErrors [None, Some ''rejected'']))
                  (hd (filterErrors [None, Some ''rejected''])))"
    by blast
  then show ?thesis
    by (simp only: rejecting1_run fst_conv)
qed

text \<open>
  C6 as stated fails: the store rejects the first of two mutations in one run and the
  second in the other (rows \<open>r1\<close> and \<open>r2\<close>), and \<^verbatim>\<open>RestoreTable\<close> returns the same
  error in both runs.
\<close>

theorem write_error_item_counterexample:
  "RestoreTable GoUTC (rejecting 0) MemSql ''t'' [(''t'', [])]
     [(''t'', [sealed GoUTC example_row, sealed GoUTC (example_row\<lparr>key := ''r2''\<rparr>)])] =
   (Some (WriteErrors 1 ''rejected''),
    [(''t'', [((''r2'', ''cf1'', ''mycolumn'', 1700000000123000), ''v'')])],
    [Restoring ''t'',
     Call_ApplyBulk ''t'' [''r1'', ''r2'']
       [SetCell ''cf1'' ''mycolumn'' 1700000000123000 ''v'',
        SetCell ''cf1'' ''mycolumn'' 1700000000123000 ''v'']
       [Some ''rejected'', None] None]) \<and>
   RestoreTable GoUTC (rejecting 1) MemSql ''t'' [(''t'', [])]
     [(''t'', [sealed GoUTC example_row, sealed GoUTC (example_row\<lparr>key := ''r2''\<rparr>)])] =
   (Some (WriteErrors 1 ''rejected''),
    [(''t'', [((''r1'', ''cf1'', ''mycolumn'', 1700000000123000), ''v'')])],
    [Restoring ''t'',
     Call_ApplyBulk ''t'' [''r1'', ''r2'']
       [SetCell ''cf1'' ''mycolumn'' 1700000000123000 ''v'',
        SetCell ''cf1'' ''mycolumn'' 1700000000123000 ''v'']
       [None, Some ''rejected''] None])"
  using rejecting0_run rejecting1_run by (rule conjI)

text \<open>
  C8. \<^verbatim>\<open>SaveTable\<close> into the in-memory database stores one row for each item of the
  scan, in order; for an item whose column is \<open>family:column\<close> under its family, the
  column of the stored row is the unqualified \<open>column\<close>, not the qualified form.
\<close>

theorem column_prefix_stripped:
  assumes "ReadRows B table bt = (rows, None)"
  shows "SaveTable L B MemSql table bt db =
           (None, without table db @ [(table, saved_rows L rows)],
            [Saving table, Saved (length (saved_rows L rows)) table]) \<and>
         list_all2 (\<lambda>(cf, item) r. \<forall>q. Column item = cf @ '':'' @ q \<longrightarrow>
                       column r = q \<and> column r \<noteq> Column item)
           (scanned_items rows) (saved_rows L rows)"
proof -
  have "list_all2 (\<lambda>(cf, item) r. \<forall>q. Column item = cf @ '':'' @ q \<longrightarrow>
                       column r = q \<and> column r \<noteq> Column item)
           xs (map (\<lambda>(cf, item). save_row L cf item) xs)" for xs
    by (induction xs) (auto simp: save_row_column)
  then show ?thesis
    using mem_SaveTable [OF assms] by (simp add: saved_rows_def)
qed

theorem column_prefix_stripped_witness:
  "map column (saved_rows GoUTC
      [[(''cf1'', [\<lparr>Row = ''r1'', Column = ''cf1:mycolumn'', Timestamp = 1700000000123000, Value = ''v''\<rparr>])]])
     = [''mycolumn''] \<and>
   fst (SaveTable GoUTC MemBT MemSql ''t''
          [(''t'', [((''r1'', ''cf1'', ''mycolumn'', 1700000000123000), ''v'')])] []) = None"
proof -
  let ?item = "\<lparr>Row = ''r1'', Column = ''cf1:mycolumn'', Timestamp = 1700000000123000, Value = ''v''\<rparr>"
  note c = column_prefix_stripped [OF example_scan, of GoUTC "[]"]
  from c have run: "fst (SaveTable GoUTC MemBT MemSql ''t''
          [(''t'', [((''r1'', ''cf1'', ''mycolumn'', 1700000000123000), ''v'')])] []) = None"
    by simp
  from c have "list_all2 (\<lambda>(cf, item) r. \<forall>q. Column item = cf @ '':'' @ q \<longrightarrow>
                       column r = q \<and> column r \<noteq> Column item)
           (scanned_items [[(''cf1'', [?item])]]) (saved_rows GoUTC [[(''cf1'', [?item])]])"
    by (rule conjunct2)
  then have "\<forall>q. Column ?item = ''cf1'' @ '':'' @ q \<longrightarrow>
               column (save_row GoUTC ''cf1'' ?item) = q"
    by (simp add: scanned_items_def saved_rows_def)
  then have "column (save_row GoUTC ''cf1'' ?item) = ''mycolumn''"
    by simp
  then have "map column (saved_rows GoUTC [[(''cf1'', [?item])]]) = [''mycolumn'']"
    by (simp add: scanned_items_def saved_rows_def)
  with run show ?thesis by (rule conjI [rotated])
qed

text \<open>
  C4. When every row of the snapshot table passes the integrity check and the remote
  store accepts the bulk writes, \<^verbatim>\<open>RestoreTable\<close> returns nil, and what it does is
  exactly this: it logs the start, makes one bulk write for each batch of the rows in
  order (a write each time 100 mutations have accumulated and one more for a non-empty
  remainder), and logs the number of rows. The store it leaves is the one these writes
  lead to. There are \<open>(n + 99) div 100\<close> writes for \<open>n\<close> rows: one, one and two for
  99, 100 and 101 rows.
\<close>

theorem batch_size_boundary:
  assumes "QueryRows D table db = Inr (map Inr rows)"
    and "\<forall>r\<in>set rows. verified L r"
    and "accepts B table S"
    and "bt \<in> S"
  shows "RestoreTable L B D table bt db =
           (None, run_batches B table (batches100 (map entry rows)) bt,
            Restoring table # batch_events B table (batches100 (map entry rows)) bt @
            [Restored (length rows) table]) \<and>
         bulk_calls (snd (snd (RestoreTable L B D table bt db))) =
           map (\<lambda>b. (table, map fst b, map snd b)) (batches100 (map entry rows)) \<and>
         length (bulk_calls (snd (snd (RestoreTable L B D table bt db)))) =
           (length rows + 99) div 100"
proof -
  let ?full = "full_batches (map entry rows)" and ?rem = "remainder (map entry rows)"
  let ?last = "if ?rem = [] then [] else [?rem]"
  let ?bt1 = "run_batches B table ?full bt"
  let ?fin = "restore_rows L B table [] (length rows) (map fst ?rem) (map snd ?rem) ?bt1"
  have split: "restore_rows L B table (map Inr rows) 0 [] [] bt = emits (batch_events B table ?full bt) ?fin"
    and bt1: "?bt1 \<in> S"
    using restore_rows_split [OF assms(3) assms(4) assms(2), of "[]" "[]" 0] by simp_all
  have fin: "?fin = (None, run_batches B table ?last ?bt1,
                     batch_events B table ?last ?bt1 @ [Restored (length rows) table])"
    by (rule restore_rows_final_exact [OF assms(3) bt1])
  have b: "batches100 (map entry rows) = ?full @ ?last"
    by (simp add: batches100_def)
  have run: "RestoreTable L B D table bt db =
           (None, run_batches B table (batches100 (map entry rows)) bt,
            Restoring table # batch_events B table (batches100 (map entry rows)) bt @
            [Restored (length rows) table])"
    using assms(1)
    by (simp add: RestoreTable_def split fin emit_def emits_def b run_batches_append
        batch_events_append del: restore_rows.simps)
  have calls: "bulk_calls (snd (snd (RestoreTable L B D table bt db))) =
                 map (\<lambda>b. (table, map fst b, map snd b)) (batches100 (map entry rows))"
    unfolding run by (simp add: bulk_calls_append bulk_calls_batch_events)
  from run calls show ?thesis
    by (simp add: batches100_length)
qed

theorem batch_size_boundary_witness:
  "map (\<lambda>n. fst (RestoreTable GoUTC MemBT MemSql ''t'' [(''t'', [])]
                 [(''t'', replicate n (sealed GoUTC example_row))]))
     [99, 100, 101] = [None, None, None] \<and>
   map (\<lambda>n. length (bulk_calls (snd (snd (RestoreTable GoUTC MemBT MemSql ''t'' [(''t'', [])]
                 [(''t'', replicate n (sealed GoUTC example_row))])))))
     [99, 100, 101] = [1, 1, 2] \<and>
   map (\<lambda>n. fst (snd (RestoreTable GoUTC MemBT MemSql ''t'' [(''t'', [])]
                 [(''t'', replicate n (sealed GoUTC example_row))])))
     [99, 100, 101] =
     replicate 3 [(''t'', [((''r1'', ''cf1'', ''mycolumn'', 1700000000123000), ''v'')])]"
proof -
  let ?r = "sealed GoUTC example_row"
  let ?cell = "((''r1'', ''cf1'', ''mycolumn'', 1700000000123000 :: 64 word), ''v'')"
  have cell: "apply_entry (entry ?r) [] = [?cell]"
    by (simp add: entry_def apply_entry_def example_row_def time_eval)
  have run: "fst (RestoreTable GoUTC MemBT MemSql ''t'' [(''t'', [])] [(''t'', replicate (Suc n) ?r)]) = None \<and>
             length (bulk_calls (snd (snd (RestoreTable GoUTC MemBT MemSql ''t'' [(''t'', [])]
                 [(''t'', replicate (Suc n) ?r)])))) = (Suc n + 99) div 100 \<and>
             fst (snd (RestoreTable GoUTC MemBT MemSql ''t'' [(''t'', [])]
                 [(''t'', replicate (Suc n) ?r)])) = [(''t'', [?cell])]" for n
  proof -
    have h1: "QueryRows MemSql ''t'' [(''t'', replicate (Suc n) ?r)] =
                Inr (map Inr (replicate (Suc n) ?r))"
      by (simp add: MemSql_def mem_QueryRows_def)
    have h2: "\<forall>r\<in>set (replicate (Suc n) ?r). verified GoUTC r"
      by simp
    have h3: "accepts MemBT ''t'' {bt. ''t'' \<in> fst ` set bt}"
      by (rule MemBT_accepts)
    have h4: "[(''t'', [])] \<in> {bt :: MemBT. ''t'' \<in> fst ` set bt}"
      by simp
    note c = batch_size_boundary [OF h1 h2 h3 h4]
    have store: "run_batches MemBT ''t'' (batches100 (map entry (replicate (Suc n) ?r))) [(''t'', [])] =
                   [(''t'', [?cell])]"
      unfolding mem_run_batches concat_batches100
      using fold_same_entry [of n "entry ?r" "[]"] by (simp add: cell)
    from c [THEN conjunct1] have "fst (RestoreTable GoUTC MemBT MemSql ''t'' [(''t'', [])]
        [(''t'', replicate (Suc n) ?r)]) = None"
      by (simp only: fst_conv)
    moreover from c [THEN conjunct2, THEN conjunct2]
    have "length (bulk_calls (snd (snd (RestoreTable GoUTC MemBT MemSql ''t'' [(''t'', [])]
                 [(''t'', replicate (Suc n) ?r)])))) = (Suc n + 99) div 100"
      by (simp only: length_replicate)
    moreover from c [THEN conjunct1] have "fst (snd (RestoreTable GoUTC MemBT MemSql ''t'' [(''t'', [])]
                 [(''t'', replicate (Suc n) ?r)])) =
            run_batches MemBT ''t'' (batches100 (map entry (replicate (Suc n) ?r))) [(''t'', [])]"
      by (simp only: fst_conv snd_conv)
    from this store have "fst (snd (RestoreTable GoUTC MemBT MemSql ''t'' [(''t'', [])]
                 [(''t'', replicate (Suc n) ?r)])) = [(''t'', [?cell])]"
      by (rule trans)
    ultimately show ?thesis by (intro conjI)
  qed
  have n: "(99 :: nat) = Suc 98" "(100 :: nat) = Suc 99" "(101 :: nat) = Suc 100"
    by simp_all
  show ?thesis
    using run [of 98] run [of 99] run [of 100]
    by (simp add: n [symmetric] numeral_3_eq_3)
qed

text \<open>
  C3, as amended. \<^verbatim>\<open>SaveAll\<close> runs \<^verbatim>\<open>SaveTable\<close> on the remote tables in sorted
  order (on all of them when it returns nil, on a prefix when a table fails).
  \<^verbatim>\<open>Restore\<close> clears the remote tables in sorted order; it then runs
  \<^verbatim>\<open>RestoreTable\<close> on the tables of the snapshot database, in the order in which the
  database lists them. The database after \<^verbatim>\<open>SaveAll\<close> is the result of running
  \<^verbatim>\<open>SaveTable\<close> on the tables of its log, in order; the remote store after
  \<^verbatim>\<open>Restore\<close> is the result of clearing the tables of its log and then running
  \<^verbatim>\<open>RestoreTable\<close> on the tables of its log, in order.
\<close>

theorem table_order:
  assumes "Tables B bt = Inr tables"
  shows "prefix (saving_order (snd (snd (SaveAll L B D bt db)))) (sort tables) \<and>
         (fst (SaveAll L B D bt db) = None \<longrightarrow>
            saving_order (snd (snd (SaveAll L B D bt db))) = sort tables) \<and>
         prefix (cleared (snd (snd (Restore L B D bt db)))) (sort tables) \<and>
         (\<forall>names. QueryTables D db = Inr names \<longrightarrow>
            prefix (restoring_order (snd (snd (Restore L B D bt db)))) (scanned_names names) \<and>
            (fst (Restore L B D bt db) = None \<longrightarrow>
               cleared (snd (snd (Restore L B D bt db))) = sort tables \<and>
               map Inr (restoring_order (snd (snd (Restore L B D bt db)))) = names)) \<and>
         fst (snd (SaveAll L B D bt db)) =
           foldl (\<lambda>db t. fst (snd (SaveTable L B D t bt db))) db
             (saving_order (snd (snd (SaveAll L B D bt db)))) \<and>
         fst (snd (Restore L B D bt db)) =
           foldl (\<lambda>bt t. fst (snd (RestoreTable L B D t bt db)))
             (foldl (\<lambda>bt t. snd (DropAllRows B t bt)) bt (cleared (snd (snd (Restore L B D bt db)))))
             (restoring_order (snd (snd (Restore L B D bt db))))"
proof -
  have save: "SaveAll L B D bt db = save_tables L B D (sort tables) bt db"
    using assms by (simp add: SaveAll_def)
  obtain k where k: "snd (snd (drop_tables B (sort tables) bt)) = map Call_DropAllRows (take k (sort tables)) \<and>
       (fst (drop_tables B (sort tables) bt) = None \<longrightarrow> take k (sort tables) = sort tables)"
    using drop_tables_trace [of B "sort tables" bt] ..
  obtain e1 bt1 tr1 where d: "drop_tables B (sort tables) bt = (e1, bt1, tr1)"
    by (metis prod.exhaust)
  have tr1: "tr1 = map Call_DropAllRows (take k (sort tables))"
    and full: "e1 = None \<Longrightarrow> tr1 = map Call_DropAllRows (sort tables)"
    using k d by simp_all
  have restore: "prefix (cleared (snd (snd (Restore L B D bt db)))) (sort tables) \<and>
         (\<forall>names. QueryTables D db = Inr names \<longrightarrow>
            prefix (restoring_order (snd (snd (Restore L B D bt db)))) (scanned_names names) \<and>
            (fst (Restore L B D bt db) = None \<longrightarrow>
               cleared (snd (snd (Restore L B D bt db))) = sort tables \<and>
               map Inr (restoring_order (snd (snd (Restore L B D bt db)))) = names))"
  proof (cases e1)
    case (Some e)
    then have "Restore L B D bt db = (Some e, bt1, tr1)"
      using assms d by (simp add: Restore_def)
    then show ?thesis
      by (simp add: tr1 cleared_drops restoring_order_drops take_is_prefix)
  next
    case None
    show ?thesis
    proof (cases "QueryTables D db")
      case (Inl err)
      then have "Restore L B D bt db = (Some QueryTableListFailed, bt1, tr1)"
        using assms d None by (simp add: Restore_def emits_def)
      then show ?thesis
        using Inl by (simp add: tr1 cleared_drops restoring_order_drops take_is_prefix)
    next
      case (Inr names)
      obtain e2 bt2 tr2 where r: "restore_tables L B D names bt1 db = (e2, bt2, tr2)"
        by (metis prod.exhaust)
      have run: "Restore L B D bt db = (e2, bt2, tr1 @ tr2)"
        using assms d None Inr r by (simp add: Restore_def emits_def)
      have o: "prefix (restoring_order tr2) (scanned_names names)" "cleared tr2 = []"
        "e2 = None \<longrightarrow> map Inr (restoring_order tr2) = names"
        using restore_tables_orders [of L B D names bt1 db] r by simp_all
      show ?thesis
        using o Inr by (simp add: run full [OF None] cleared_append restoring_order_append
            cleared_drops restoring_order_drops)
    qed
  qed
  have effect: "fst (snd (SaveAll L B D bt db)) =
           foldl (\<lambda>db t. fst (snd (SaveTable L B D t bt db))) db
             (saving_order (snd (snd (SaveAll L B D bt db))))"
    unfolding save by (rule save_tables_fold)
  note effect' = Restore_replay [of L B D bt db, THEN conjunct2, THEN conjunct2]
  note order = save_tables_order [of L B D "sort tables" bt db, folded save]
  from order [THEN conjunct1] order [THEN conjunct2] restore [THEN conjunct1]
    restore [THEN conjunct2] effect effect'
  show ?thesis
    by (intro conjI)
qed

theorem table_order_witness:
  "saving_order (snd (snd (SaveAll GoUTC MemBT MemSql [(''b'', []), (''a'', []), (''c'', [])]
      [(''c'', []), (''a'', []), (''b'', [])]))) = [''a'', ''b'', ''c''] \<and>
   cleared (snd (snd (Restore GoUTC MemBT MemSql [(''b'', []), (''a'', []), (''c'', [])]
      [(''c'', []), (''a'', []), (''b'', [])]))) = [''a'', ''b'', ''c''] \<and>
   map Inr (restoring_order (snd (snd (Restore GoUTC MemBT MemSql
      [(''b'', []), (''a'', []), (''c'', [])] [(''c'', []), (''a'', []), (''b'', [])])))) =
     [Inr ''c'', Inr ''a'', Inr ''b'' :: string + string]"
proof -
  let ?bt = "[(''b'', []), (''a'', []), (''c'', [])] :: MemBT"
  let ?db = "[(''c'', []), (''a'', []), (''b'', [])] :: MemSql"
  have h: "Tables MemBT ?bt = Inr [''b'', ''a'', ''c'']"
    by (simp add: MemBT_def mem_Tables_def)
  have q: "QueryTables MemSql ?db = Inr [Inr ''c'', Inr ''a'', Inr ''b'']"
    by (simp add: listing_eval)
  have s: "fst (SaveAll GoUTC MemBT MemSql ?bt ?db) = None"
    by (simp add: third_save)
  have r: "fst (Restore GoUTC MemBT MemSql ?bt ?db) = None"
    by (simp add: mixed_restore)
  have o: "sort [''b'', ''a'', ''c''] = [''a'', ''b'', ''c'']"
    by simp
  note c = table_order [OF h, of GoUTC MemSql ?db]
  note a1 = c [THEN conjunct2, THEN conjunct1, THEN mp, OF s]
  note c4 = c [THEN conjunct2, THEN conjunct2, THEN conjunct2, THEN conjunct1, THEN spec, THEN mp, OF q]
  note a2 = c4 [THEN conjunct2, THEN mp, OF r]
  from a1 a2 show ?thesis
    unfolding o by (rule conjI)
qed

text \<open>
  C3 as stated fails for the restore direction. A first \<^verbatim>\<open>SaveAll\<close> finds the remote
  table \<open>c\<close>, a second one finds \<open>b\<close> and \<open>a\<close>: the snapshot database then lists
  \<open>c\<close>, \<open>a\<close>, \<open>b\<close>. With the remote tables \<open>b\<close>, \<open>a\<close>, \<open>c\<close>, \<^verbatim>\<open>Restore\<close> runs
  \<^verbatim>\<open>RestoreTable\<close> in the order \<open>c\<close>, \<open>a\<close>, \<open>b\<close>.
\<close>

theorem restore_order_counterexample:
  "SaveAll GoUTC MemBT MemSql [(''c'', [])] [] =
     (None, [(''c'', [])], [Saving ''c'', Saved 0 ''c'']) \<and>
   SaveAll GoUTC MemBT MemSql [(''b'', []), (''a'', [])] [(''c'', [])] =
     (None, [(''c'', []), (''a'', []), (''b'', [])],
      [Saving ''a'', Saved 0 ''a'', Saving ''b'', Saved 0 ''b'']) \<and>
   Tables MemBT [(''b'', []), (''a'', []), (''c'', [])] = Inr [''b'', ''a'', ''c''] \<and>
   restoring_order (snd (snd (Restore GoUTC MemBT MemSql [(''b'', []), (''a'', []), (''c'', [])]
      [(''c'', []), (''a'', []), (''b'', [])]))) = [''c'', ''a'', ''b'']"
  by (simp add: first_save second_save mixed_restore) (simp add: MemBT_def mem_Tables_def)



text \<open>
  C7. \<^verbatim>\<open>SaveTable\<close> drops the snapshot table of that name, creates it again and
  inserts one row for each scanned item. After a save the table holds the rows of that
  scan and nothing else, whatever the database held before. A second save, of a remote
  table whose scan returns the same rows with the families of a row possibly visited in
  another order (the callback ranges over a Go map), returns nil and leaves a table with
  the same rows and the same checksums, counted with their multiplicity. When the scan
  visits the items in the same order, the second save returns what the first returned:
  the same database and the same log.
\<close>

theorem save_twice:
  assumes "ReadRows B t bt = (rows, None)"
    and "ReadRows B t bt' = (rows', None)"
    and "list_all2 (\<lambda>r r'. mset r = mset r') rows rows'"
  shows "SaveTable L B MemSql t bt db =
           (None, without t db @ [(t, saved_rows L rows)],
            [Saving t, Saved (length (saved_rows L rows)) t]) \<and>
         SaveTable L B MemSql t bt' (without t db @ [(t, saved_rows L rows)]) =
           (None, without t db @ [(t, saved_rows L rows')],
            [Saving t, Saved (length (saved_rows L rows')) t]) \<and>
         mset (saved_rows L rows') = mset (saved_rows L rows) \<and>
         (rows' = rows \<longrightarrow>
            SaveTable L B MemSql t bt' (fst (snd (SaveTable L B MemSql t bt db))) =
              SaveTable L B MemSql t bt db)"
proof -
  note first = mem_SaveTable [OF assms(1), of L db]
  note second = mem_SaveTable [OF assms(2), of L "without t db @ [(t, saved_rows L rows)]",
      unfolded without_again]
  have same: "mset (saved_rows L rows') = mset (saved_rows L rows)"
    using scanned_items_perm [OF assms(3)] by (simp add: saved_rows_def)
  have again: "SaveTable L B MemSql t bt' (fst (snd (SaveTable L B MemSql t bt db))) =
                 SaveTable L B MemSql t bt db" if "rows' = rows"
    using second unfolding first fst_conv snd_conv that by simp
  from first second same again show ?thesis
    by (intro conjI impI)
qed

theorem save_twice_witness:
  "SaveTable GoUTC MemBT MemSql ''t''
     [(''t'', [((''r1'', ''cf2'', ''b'', 1), [CHR 0x00, CHR ''y'']),
               ((''r1'', ''cf1'', ''a'', 1700000000123000), [])])]
     (fst (snd (SaveTable GoUTC MemBT MemSql ''t''
        [(''t'', [((''r1'', ''cf1'', ''a'', 1700000000123000), []),
                  ((''r1'', ''cf2'', ''b'', 1), [CHR 0x00, CHR ''y''])])]
        [(''t'', [example_row])]))) =
   (None,
    [(''t'', [save_row GoUTC ''cf2'' \<lparr>Row = ''r1'', Column = ''cf2:b'', Timestamp = 1, Value = [CHR 0x00, CHR ''y'']\<rparr>,
              save_row GoUTC ''cf1'' \<lparr>Row = ''r1'', Column = ''cf1:a'', Timestamp = 1700000000123000, Value = []\<rparr>])],
    [Saving ''t'', Saved 2 ''t'']) \<and>
   fst (snd (SaveTable GoUTC MemBT MemSql ''t''
        [(''t'', [((''r1'', ''cf1'', ''a'', 1700000000123000), []),
                  ((''r1'', ''cf2'', ''b'', 1), [CHR 0x00, CHR ''y''])])]
        [(''t'', [example_row])])) =
    [(''t'', [save_row GoUTC ''cf1'' \<lparr>Row = ''r1'', Column = ''cf1:a'', Timestamp = 1700000000123000, Value = []\<rparr>,
              save_row GoUTC ''cf2'' \<lparr>Row = ''r1'', Column = ''cf2:b'', Timestamp = 1, Value = [CHR 0x00, CHR ''y'']\<rparr>])]"
proof -
  have h3: "list_all2 (\<lambda>r r'. mset r = mset r')
     [[(''cf1'', [\<lparr>Row = ''r1'', Column = ''cf1:a'', Timestamp = 1700000000123000, Value = []\<rparr>]),
       (''cf2'', [\<lparr>Row = ''r1'', Column = ''cf2:b'', Timestamp = 1, Value = [CHR 0x00, CHR ''y'']\<rparr>])]]
     [[(''cf2'', [\<lparr>Row = ''r1'', Column = ''cf2:b'', Timestamp = 1, Value = [CHR 0x00, CHR ''y'']\<rparr>]),
       (''cf1'', [\<lparr>Row = ''r1'', Column = ''cf1:a'', Timestamp = 1700000000123000, Value = []\<rparr>])]]"
    by (simp add: add_mset_commute)
  note c = save_twice [OF two_family_scan two_family_scan_swapped h3, of GoUTC "[(''t'', [example_row])]"]
  have w: "without ''t'' [(''t'', [example_row])] = []"
    by (simp add: without_def)
  note first = c [THEN conjunct1, unfolded w append_Nil]
  note second = c [THEN conjunct2, THEN conjunct1, unfolded w append_Nil]
  show ?thesis
    unfolding first fst_conv snd_conv second
    by (simp add: saved_rows_def scanned_items_def)
qed




text \<open>
  C2. The first three writes to the hasher are \<^verbatim>\<open>fmt.Fprintf(hasher, s)\<close> with the
  field \<open>s\<close> as the format and no operand, where the value is written with
  \<^verbatim>\<open>hasher.Write\<close>. A row key with a percent sign is therefore not hashed as its
  bytes. For the row key \<^verbatim>\<open>%%\<close> the checksum is the hash of the single byte
  \<^verbatim>\<open>%\<close> followed by the other fields, not the hash of the two bytes of the key, and
  the row key \<^verbatim>\<open>%5%\<close> has the same checksum.
\<close>

theorem checksum_format_string:
  "save_hash GoUTC ''cf1'' ''mycolumn''
     \<lparr>Row = ''%%'', Column = ''cf1:mycolumn'', Timestamp = 1700000000123000, Value = ''v''\<rparr> =
     Sum32 (Write New32a ''%cf1mycolumnv2023-11-14T22:13:20.123Z'') \<and>
   save_hash GoUTC ''cf1'' ''mycolumn''
     \<lparr>Row = ''%%'', Column = ''cf1:mycolumn'', Timestamp = 1700000000123000, Value = ''v''\<rparr> \<noteq>
     Sum32 (Write New32a ''%%cf1mycolumnv2023-11-14T22:13:20.123Z'') \<and>
   save_hash GoUTC ''cf1'' ''mycolumn''
     \<lparr>Row = ''%5%'', Column = ''cf1:mycolumn'', Timestamp = 1700000000123000, Value = ''v''\<rparr> =
   save_hash GoUTC ''cf1'' ''mycolumn''
     \<lparr>Row = ''%%'', Column = ''cf1:mycolumn'', Timestamp = 1700000000123000, Value = ''v''\<rparr>"
proof -
  have k1: "doPrintf ''%%'' = ''%''" and k2: "doPrintf ''%5%'' = ''%''"
    by (simp_all add: fmt_eval)
  have t: "RFC3339Nano_UTC (Timestamp_Time 1700000000123000) = ''2023-11-14T22:13:20.123Z''"
    by (simp add: time_eval utc_eval)
  have p: "doPrintf ''cf1'' = ''cf1''" "doPrintf ''mycolumn'' = ''mycolumn''"
    "doPrintf ''2023-11-14T22:13:20.123Z'' = ''2023-11-14T22:13:20.123Z''"
    by (simp_all add: doPrintf_plain)
  have a: "save_hash GoUTC ''cf1'' ''mycolumn''
     \<lparr>Row = ''%%'', Column = ''cf1:mycolumn'', Timestamp = 1700000000123000, Value = ''v''\<rparr> = 1277598300"
    by (simp add: save_hash_def GoUTC_def k1 t p New32a_def Write_def Sum32_def)
  have b: "save_hash GoUTC ''cf1'' ''mycolumn''
     \<lparr>Row = ''%5%'', Column = ''cf1:mycolumn'', Timestamp = 1700000000123000, Value = ''v''\<rparr> = 1277598300"
    by (simp add: save_hash_def GoUTC_def k2 t p New32a_def Write_def Sum32_def)
  have c: "Sum32 (Write New32a ''%cf1mycolumnv2023-11-14T22:13:20.123Z'') = 1277598300"
    by (simp add: New32a_def Write_def Sum32_def)
  have d: "Sum32 (Write New32a ''%%cf1mycolumnv2023-11-14T22:13:20.123Z'') = 2537066135"
    by (simp add: New32a_def Write_def Sum32_def)
  show ?thesis
    unfolding a b c d by simp
qed

end
